theory Spec2Isabelle
  imports Main "HOL-Library.Word" "HOL-Library.Char_ord" "HOL-Library.List_Lexorder"
    "HOL-Library.AList"
begin

unbundle bit_operations_syntax

section \<open>The virtual collection manager (collectionManager.js)\<close>

text \<open>
  A shallow embedding of the key codec, the ordinal allocator, the collection engine, the
  range iterator and the reanimator of \<^verbatim>\<open>makeCollectionManager\<close>.

  Strings are \<^typ>\<open>string\<close>; they are compared as JavaScript compares them, code unit by
  code unit, which is the lexicographic order of \<^theory_text>\<open>List_Lexorder\<close> over
  \<^theory_text>\<open>Char_ord\<close>. A double is the 64-bit pattern that the shared
  \<^verbatim>\<open>Float64Array\<close>/\<^verbatim>\<open>BigUint64Array\<close> buffer exposes; the BigInt read out of
  \<^verbatim>\<open>asBits[0]\<close> is a natural number below \<open>2 ^ 64\<close>.
\<close>

subsection \<open>String helpers\<close>

text \<open>
  \<^verbatim>\<open>zeroPad(n, size)\<close>: eighteen zeros are prepended and the last \<open>size\<close> characters kept.
  \<^verbatim>\<open>substring\<close> treats a negative start as 0, which is what the truncating subtraction
  on \<^typ>\<open>nat\<close> does here.
\<close>

definition zeroPad :: "string \<Rightarrow> nat \<Rightarrow> string" where
  "zeroPad n sz = (let str = ''000000000000000000'' @ n in drop (length str - sz) str)"

definition digitChar :: "nat \<Rightarrow> char" where
  "digitChar d = ''0123456789abcdef'' ! d"

text \<open>\<^verbatim>\<open>toString(radix)\<close> of a non-negative integer: no leading zeros, lower case.\<close>

function toStringRadix :: "nat \<Rightarrow> nat \<Rightarrow> string" where
  "toStringRadix r n =
     (if n < r then [digitChar n]
      else if r < 2 then []
      else toStringRadix r (n div r) @ [digitChar (n mod r)])"
  by pat_completeness auto
termination
  by (relation "measure (\<lambda>(r, n). n)") auto

declare toStringRadix.simps [simp del]

definition digitVal :: "char \<Rightarrow> nat option" where
  "digitVal ch =
     (let c = (of_char ch :: nat) in
      if 48 \<le> c \<and> c \<le> 57 then Some (c - 48)
      else if 97 \<le> c \<and> c \<le> 102 then Some (c - 87)
      else if 65 \<le> c \<and> c \<le> 70 then Some (c - 55)
      else None)"

fun parseDigitsFrom :: "nat \<Rightarrow> nat \<Rightarrow> string \<Rightarrow> nat option" where
  "parseDigitsFrom r acc [] = Some acc"
| "parseDigitsFrom r acc (ch # rest) =
     (case digitVal ch of
        None \<Rightarrow> None
      | Some d \<Rightarrow> if d < r then parseDigitsFrom r (acc * r + d) rest else None)"

text \<open>
  \<^verbatim>\<open>BigInt(`0x${digits}`)\<close>: a SyntaxError (here \<open>None\<close>) unless \<open>digits\<close> is a
  non-empty string of hexadecimal digits.
\<close>

definition BigInt_hex :: "string \<Rightarrow> nat option" where
  "BigInt_hex digits = (if digits = [] then None else parseDigitsFrom 16 0 digits)"

text \<open>
  \<^verbatim>\<open>BigInt(numstr)\<close> on a decimal string: the empty string is \<open>0n\<close>. Signs and white
  space, which no key written by the codec contains, are treated as a syntax error.
\<close>

definition BigInt_dec :: "string \<Rightarrow> nat option" where
  "BigInt_dec numstr = parseDigitsFrom 10 0 numstr"

text \<open>
  \<^verbatim>\<open>Number.parseInt(str, 10)\<close> on the text of a row: the longest prefix of decimal digits,
  \<open>None\<close> standing for \<^verbatim>\<open>NaN\<close> when there is none. Leading white space and a sign, which
  no row written by the collection manager has, are not modelled. Numbers are modelled as
  exact naturals, which they are below \<open>2 ^ 53\<close>.
\<close>

definition isDecDigit :: "char \<Rightarrow> bool" where
  "isDecDigit ch = (48 \<le> (of_char ch :: nat) \<and> (of_char ch :: nat) \<le> 57)"

definition parseInt10 :: "string \<Rightarrow> nat option" where
  "parseInt10 str =
     (let ds = takeWhile isDecDigit str in
      if ds = [] then None else parseDigitsFrom 10 0 ds)"

text \<open>The template literal \<^verbatim>\<open>`${n}`\<close> of such a number, and \<^verbatim>\<open>n + 1\<close>.\<close>

definition numberToString :: "nat option \<Rightarrow> string" where
  "numberToString n = (case n of None \<Rightarrow> ''NaN'' | Some k \<Rightarrow> toStringRadix 10 k)"

definition numberPlusOne :: "nat option \<Rightarrow> nat option" where
  "numberPlusOne n = map_option Suc n"

subsection \<open>Key codec: numbers\<close>

text \<open>
  \<^verbatim>\<open>n < 0\<close> on the double with bit pattern \<open>n\<close>: the sign bit is set, and the value is
  neither \<open>-0\<close> (pattern \<open>0x8000000000000000\<close>) nor a NaN (patterns above that of
  \<open>-Infinity\<close>, \<open>0xfff0000000000000\<close>).
\<close>

definition ltZero :: "64 word \<Rightarrow> bool" where
  "ltZero n = (0x8000000000000000 < n \<and> n \<le> 0xfff0000000000000)"

definition numberToDBEntryKey :: "64 word \<Rightarrow> string" where
  "numberToDBEntryKey n =
     (let bits = unat n;
          bits = (if ltZero n then bits XOR 0xffffffffffffffff
                  else bits XOR 0x8000000000000000)
      in CHR ''f'' # zeroPad (toStringRadix 16 bits) 16)"

datatype error =
    SchemaViolation
  | NotFound
  | AlreadyPresent
  | UnsupportedKeyPassStyle
  | UnsupportedValuePattern
  | DecodeCorruption
  | OrdinalMissing
  | ConcurrentModification
  | NotKeyPattern
  | SyntaxError
  | TypeError
  | NotPassable

text \<open>
  \<^verbatim>\<open>k[0] < '8'\<close>: \<open>k[0]\<close> is the first character of the entry key, \<^verbatim>\<open>undefined\<close> (and
  the comparison false) when the key is empty.
\<close>

definition firstCharLess :: "string \<Rightarrow> char \<Rightarrow> bool" where
  "firstCharLess k ch = (case k of [] \<Rightarrow> False | c # _ \<Rightarrow> c < ch)"

definition dbEntryKeyToNumber :: "string \<Rightarrow> error + 64 word" where
  "dbEntryKeyToNumber k =
     (case BigInt_hex (drop 1 k) of
        None \<Rightarrow> Inl SyntaxError
      | Some bits \<Rightarrow>
          let bits = (if firstCharLess k (CHR ''8'') then bits XOR 0xffffffffffffffff
                      else bits XOR 0x8000000000000000)
          in Inr (word_of_nat bits))"

subsection \<open>Key codec: bigints\<close>

definition BIGINT_TAG_LEN :: nat where
  "BIGINT_TAG_LEN = 10"

definition BIGINT_LEN_MODULUS :: nat where
  "BIGINT_LEN_MODULUS = 10 ^ BIGINT_TAG_LEN"

text \<open>
  The length of a string is far below \<open>10 ^ 10\<close>, so the subtraction
  \<^verbatim>\<open>BIGINT_LEN_MODULUS - raw.length\<close> never goes negative.
\<close>

definition bigintToDBEntryKey :: "int \<Rightarrow> string" where
  "bigintToDBEntryKey n =
     (if n < 0 then
        let raw = toStringRadix 10 (nat (- n));
            modulus = (10 :: int) ^ length raw;
            numstr = toStringRadix 10 (nat (modulus + n));
            lenTag = zeroPad (toStringRadix 10 (BIGINT_LEN_MODULUS - length raw)) BIGINT_TAG_LEN
        in ''n'' @ lenTag @ '':'' @ zeroPad numstr (length raw)
      else
        let numstr = toStringRadix 10 (nat n)
        in ''p'' @ zeroPad (toStringRadix 10 (length numstr)) BIGINT_TAG_LEN @ '':'' @ numstr)"

definition dbEntryKeyToBigint :: "string \<Rightarrow> error + int" where
  "dbEntryKeyToBigint k =
     (let numstr = drop (BIGINT_TAG_LEN + 2) k in
      case BigInt_dec numstr of
        None \<Rightarrow> Inl SyntaxError
      | Some n \<Rightarrow>
          if take 1 k = ''n'' then
            let modulus = (10 :: int) ^ length numstr in Inr (- (modulus - int n))
          else Inr (int n))"

subsection \<open>Passable values and the external collaborators\<close>

text \<open>
  Modelled from the spec: \<^verbatim>\<open>passStyleOf\<close>, \<^verbatim>\<open>nameForPassableSymbol\<close> and
  \<^verbatim>\<open>passableSymbolForName\<close> belong to the marshal package. A passable key is a "tagged
  union with variants null, undefined, boolean, number, bigint, string, symbol-with-name and
  remotable"; the pass style is the constructor, and a symbol is its name. The other
  constructors stand for the pass styles that cannot be keys, and \<open>PUnhardened\<close> for an
  object that has not been frozen: it has no pass style until \<^verbatim>\<open>harden\<close> freezes it.
\<close>

datatype passable =
    PNull
  | PUndefined
  | PNumber "64 word"
  | PString string
  | PBoolean bool
  | PBigint int
  | PRemotable string
  | PSymbol string
  | PCopyArray "passable list"
  | PTagged string passable
  | PPromise string
  | PError string
  | PUnhardened passable

fun isRemotable :: "passable \<Rightarrow> bool" where
  "isRemotable (PRemotable slot) = True"
| "isRemotable _ = False"

text \<open>
  Modelled from the spec: \<^verbatim>\<open>getSlotForVal\<close> and \<^verbatim>\<open>getValForSlot\<close> are passed in by
  the host. A remotable is an "opaque reference carrying a stable slot identifier assigned by
  the environment", so it is modelled by its slot. The code applies \<^verbatim>\<open>getSlotForVal\<close> to
  remotables only.
\<close>

fun getSlotForVal :: "passable \<Rightarrow> string" where
  "getSlotForVal (PRemotable slot) = slot"
| "getSlotForVal _ = ''undefined''"

definition getValForSlot :: "string \<Rightarrow> passable" where
  "getValForSlot slot = PRemotable slot"

text \<open>A value in a template literal: a number, a string or \<^verbatim>\<open>undefined\<close>.\<close>

datatype jsval = JNum nat | JStr string | JUndefined

fun templateText :: "jsval \<Rightarrow> string" where
  "templateText (JNum n) = toStringRadix 10 n"
| "templateText (JStr s) = s"
| "templateText JUndefined = ''undefined''"

datatype kind = scalarMapStore | scalarWeakMapStore | scalarSetStore | scalarWeakSetStore

text \<open>The \<^verbatim>\<open>hasWeakKeys\<close> column of \<^verbatim>\<open>storeKindInfo\<close>.\<close>

fun kindHasWeakKeys :: "kind \<Rightarrow> bool" where
  "kindHasWeakKeys scalarMapStore = False"
| "kindHasWeakKeys scalarWeakMapStore = True"
| "kindHasWeakKeys scalarSetStore = False"
| "kindHasWeakKeys scalarWeakSetStore = True"

record capdata =
  body :: string
  slots :: "string list"

text \<open>
  The vat store holds strings. A row written with \<^verbatim>\<open>JSON.stringify\<close> is kept as the
  structure that \<^verbatim>\<open>JSON.parse\<close> gives back; any other row is its text.
\<close>

datatype json = JCap capdata | JTable "(kind \<times> nat) list"

datatype row = Raw string | Json json

text \<open>
  The pattern kit (\<^verbatim>\<open>makePatternKit\<close>, \<^verbatim>\<open>compareRank\<close>), the marshaller
  (\<^verbatim>\<open>serialize\<close>, \<^verbatim>\<open>unserialize\<close>), the global \<^verbatim>\<open>harden\<close> and the text produced by
  \<^verbatim>\<open>JSON.stringify\<close> are external to the collection manager; they are parameters of the
  model. \<open>isKeyPattern\<close> tells whether \<^verbatim>\<open>assertKeyPattern\<close> passes. \<^verbatim>\<open>serialize\<close> throws
  on a value that cannot be passed, so its result is an error or the capdata.
\<close>

record env =
  matches :: "passable \<Rightarrow> passable \<Rightarrow> bool"
  isKeyPattern :: "passable \<Rightarrow> bool"
  compareRank :: "passable \<Rightarrow> passable \<Rightarrow> int"
  getRankCover :: "passable \<Rightarrow> (passable \<Rightarrow> error + string) \<Rightarrow> error + string \<times> string"
  M_any :: passable
  M_scalar :: passable
  harden :: "passable \<Rightarrow> passable"
  serialize :: "passable \<Rightarrow> error + capdata"
  unserialize :: "capdata \<Rightarrow> passable"
  JSON_stringify :: "json \<Rightarrow> string"

definition pattEq :: "env \<Rightarrow> passable \<Rightarrow> passable \<Rightarrow> bool" where
  "pattEq E p1 p2 = (compareRank E p1 p2 = 0)"

subsection \<open>The vat store and the virtual reference manager\<close>

record sys =
  vatstore :: "(string \<times> row) list"
  reachable :: "string \<Rightarrow> int"
  recognizable :: "string \<Rightarrow> int"
  reanimators :: "(nat \<times> kind) list"
  droppedCollectionRegistry :: "string list"
  nextExportID :: nat

definition vatstoreGet :: "sys \<Rightarrow> string \<Rightarrow> row option" where
  "vatstoreGet s k = map_of (vatstore s) k"

definition vatstoreSet :: "string \<Rightarrow> row \<Rightarrow> sys \<Rightarrow> sys" where
  "vatstoreSet k v s = s\<lparr>vatstore := AList.update k v (vatstore s)\<rparr>"

definition vatstoreDelete :: "string \<Rightarrow> sys \<Rightarrow> sys" where
  "vatstoreDelete k s = s\<lparr>vatstore := AList.delete k (vatstore s)\<rparr>"

text \<open>
  Modelled from the spec: \<^verbatim>\<open>syscall.vatstoreGetAfter\<close> is provided by the host. It
  "returns the smallest key strictly greater than \<open>priorKey\<close> within
  \<open>[lowerBound, upperBound)\<close>, together with its value".
\<close>

definition vatstoreGetAfter :: "sys \<Rightarrow> string \<Rightarrow> string \<Rightarrow> string \<Rightarrow> (string \<times> row) option" where
  "vatstoreGetAfter s priorKey lowerBound upperBound =
     (let cands = filter (\<lambda>(k, v). priorKey < k \<and> lowerBound \<le> k \<and> k < upperBound) (vatstore s)
      in if cands = [] then None else Some (arg_min_list fst cands))"

text \<open>
  Modelled from the spec: the virtual reference manager \<^verbatim>\<open>vrm\<close> is passed in. Its
  reference counts and recognizer registrations are counters per slot;
  \<^verbatim>\<open>updateReferenceCounts\<close> has "add-then-remove semantics".
\<close>

definition addReachableVref :: "string \<Rightarrow> sys \<Rightarrow> sys" where
  "addReachableVref vref s = s\<lparr>reachable := (reachable s)(vref := reachable s vref + 1)\<rparr>"

definition removeReachableVref :: "string \<Rightarrow> sys \<Rightarrow> sys" where
  "removeReachableVref vref s = s\<lparr>reachable := (reachable s)(vref := reachable s vref - 1)\<rparr>"

definition updateReferenceCounts :: "string list \<Rightarrow> string list \<Rightarrow> sys \<Rightarrow> sys" where
  "updateReferenceCounts beforeSlots afterSlots s =
     fold removeReachableVref beforeSlots (fold addReachableVref afterSlots s)"

definition addRecognizableValue :: "passable \<Rightarrow> sys \<Rightarrow> sys" where
  "addRecognizableValue val s =
     s\<lparr>recognizable := (recognizable s)(getSlotForVal val := recognizable s (getSlotForVal val) + 1)\<rparr>"

definition removeRecognizableValue :: "passable \<Rightarrow> sys \<Rightarrow> sys" where
  "removeRecognizableValue val s =
     s\<lparr>recognizable := (recognizable s)(getSlotForVal val := recognizable s (getSlotForVal val) - 1)\<rparr>"

definition registerReanimator :: "nat \<Rightarrow> kind \<Rightarrow> sys \<Rightarrow> sys" where
  "registerReanimator kindID kindName s =
     s\<lparr>reanimators := AList.update kindID kindName (reanimators s)\<rparr>"

text \<open>Modelled from the spec: \<^verbatim>\<open>allocateExportID\<close> is the host's allocator of fresh IDs.\<close>

definition allocateExportID :: "sys \<Rightarrow> nat \<times> sys" where
  "allocateExportID s = (nextExportID s, s\<lparr>nextExportID := nextExportID s + 1\<rparr>)"

text \<open>JavaScript truthiness of a row that was found, and \<^verbatim>\<open>JSON.parse\<close> of it.\<close>

fun truthy :: "row \<Rightarrow> bool" where
  "truthy (Raw str) = (str \<noteq> [])"
| "truthy (Json j) = True"

fun parseCapData :: "row \<Rightarrow> error + capdata" where
  "parseCapData (Raw str) = Inl SyntaxError"
| "parseCapData (Json (JCap cd)) = Inr cd"
| "parseCapData (Json (JTable t)) = Inl TypeError"

fun rowText :: "env \<Rightarrow> row \<Rightarrow> string" where
  "rowText E (Raw str) = str"
| "rowText E (Json j) = JSON_stringify E j"

definition rowOptText :: "env \<Rightarrow> row option \<Rightarrow> string" where
  "rowOptText E r = (case r of None \<Rightarrow> ''undefined'' | Some v \<Rightarrow> rowText E v)"

subsection \<open>The collection engine: \<^verbatim>\<open>summonCollection\<close>\<close>

text \<open>
  The variables closed over by the methods of one collection handle. \<open>size_c\<close> is the
  source's \<^verbatim>\<open>size\<close>.
\<close>

record collection =
  label :: jsval
  dbKeyPrefix :: string
  hasWeakKeys :: bool
  keySchema :: passable
  currentGenerationNumber :: nat
  size_c :: int

definition prefix :: "collection \<Rightarrow> string \<Rightarrow> string" where
  "prefix c dbEntryKey = dbKeyPrefix c @ dbEntryKey"

definition getOrdinal :: "collection \<Rightarrow> sys \<Rightarrow> passable \<Rightarrow> row option" where
  "getOrdinal c s remotable = vatstoreGet s (prefix c (''|'' @ getSlotForVal remotable))"

definition deleteOrdinal :: "collection \<Rightarrow> passable \<Rightarrow> sys \<Rightarrow> sys" where
  "deleteOrdinal c remotable s = vatstoreDelete (prefix c (''|'' @ getSlotForVal remotable)) s"

definition generateOrdinal :: "env \<Rightarrow> collection \<Rightarrow> passable \<Rightarrow> sys \<Rightarrow> sys" where
  "generateOrdinal E c remotable s =
     (let nextOrdinal = parseInt10 (rowOptText E (vatstoreGet s (prefix c ''|nextOrdinal'')));
          s1 = vatstoreSet (prefix c (''|'' @ getSlotForVal remotable))
                 (Raw (numberToString nextOrdinal)) s
      in vatstoreSet (prefix c ''|nextOrdinal'') (Raw (numberToString (numberPlusOne nextOrdinal))) s1)"

definition encodeKey :: "env \<Rightarrow> collection \<Rightarrow> sys \<Rightarrow> passable \<Rightarrow> error + string" where
  "encodeKey E c s key =
     (case key of
        PNull \<Rightarrow> Inr ''z''
      | PUndefined \<Rightarrow> Inr ''u''
      | PNumber n \<Rightarrow> Inr (numberToDBEntryKey n)
      | PString str \<Rightarrow> Inr (''s'' @ str)
      | PBoolean b \<Rightarrow> Inr (''b'' @ (if b then ''true'' else ''false''))
      | PBigint n \<Rightarrow> Inr (bigintToDBEntryKey n)
      | PRemotable slot \<Rightarrow>
          (case getOrdinal c s key of
             None \<Rightarrow> Inl OrdinalMissing
           | Some ordinal \<Rightarrow>
               Inr (''r'' @ zeroPad (rowText E ordinal) BIGINT_TAG_LEN @ '':'' @ getSlotForVal key))
      | PSymbol name \<Rightarrow> Inr (''y'' @ name)
      | _ \<Rightarrow> Inl UnsupportedKeyPassStyle)"

definition keyToDBKey :: "env \<Rightarrow> collection \<Rightarrow> sys \<Rightarrow> passable \<Rightarrow> error + string" where
  "keyToDBKey E c s key = map_sum id (prefix c) (encodeKey E c s key)"

definition dbKeyToKey :: "collection \<Rightarrow> string \<Rightarrow> error + passable" where
  "dbKeyToKey c dbKey =
     (let dbEntryKey = drop (length (dbKeyPrefix c)) dbKey in
      case dbEntryKey of
        [] \<Rightarrow> Inl DecodeCorruption
      | tag # rest \<Rightarrow>
          if tag = CHR ''z'' then Inr PNull
          else if tag = CHR ''u'' then Inr PUndefined
          else if tag = CHR ''f'' then map_sum id PNumber (dbEntryKeyToNumber dbEntryKey)
          else if tag = CHR ''s'' then Inr (PString rest)
          else if tag = CHR ''b'' then Inr (PBoolean (rest \<noteq> ''false''))
          else if tag = CHR ''n'' \<or> tag = CHR ''p'' then
            map_sum id PBigint (dbEntryKeyToBigint dbEntryKey)
          else if tag = CHR ''r'' then Inr (getValForSlot (drop (BIGINT_TAG_LEN + 2) dbEntryKey))
          else if tag = CHR ''y'' then Inr (PSymbol rest)
          else Inl DecodeCorruption)"

definition has :: "env \<Rightarrow> collection \<Rightarrow> sys \<Rightarrow> passable \<Rightarrow> error + bool" where
  "has E c s key =
     (if \<not> matches E key (keySchema c) then Inr False
      else if isRemotable key then Inr (getOrdinal c s key \<noteq> None)
      else case keyToDBKey E c s key of
             Inl e \<Rightarrow> Inl e
           | Inr dbKey \<Rightarrow> Inr (vatstoreGet s dbKey \<noteq> None))"

definition get :: "env \<Rightarrow> collection \<Rightarrow> sys \<Rightarrow> passable \<Rightarrow> error + passable" where
  "get E c s key =
     (if \<not> matches E key (keySchema c) then Inl SchemaViolation
      else case keyToDBKey E c s key of
             Inl e \<Rightarrow> Inl e
           | Inr dbKey \<Rightarrow>
               (case vatstoreGet s dbKey of
                  None \<Rightarrow> Inl NotFound
                | Some result \<Rightarrow>
                    if truthy result then map_sum id (unserialize E) (parseCapData result)
                    else Inl NotFound))"

definition entryDeleter :: "env \<Rightarrow> collection \<Rightarrow> string \<Rightarrow> sys \<Rightarrow> sys" where
  "entryDeleter E c vobjID s =
     (let ordinalKey = prefix c (''|'' @ vobjID);
          ordinalString = vatstoreGet s ordinalKey;
          s1 = vatstoreDelete ordinalKey s;
          ordinalTag = zeroPad (rowOptText E ordinalString) BIGINT_TAG_LEN
      in vatstoreDelete (prefix c (''r'' @ ordinalTag @ '':'' @ vobjID)) s1)"

text \<open>
  A mutating method returns its outcome together with the handle and the system as the call
  leaves them, also when it throws.
\<close>

definition init :: "env \<Rightarrow> collection \<Rightarrow> sys \<Rightarrow> passable \<Rightarrow> passable \<Rightarrow> (error + unit) \<times> collection \<times> sys" where
  "init E c s key val =
     (if \<not> matches E key (keySchema c) then (Inl SchemaViolation, c, s)
      else case has E c s key of
             Inl e \<Rightarrow> (Inl e, c, s)
           | Inr True \<Rightarrow> (Inl AlreadyPresent, c, s)
           | Inr False \<Rightarrow>
               let c1 = c\<lparr>currentGenerationNumber := currentGenerationNumber c + 1\<rparr>;
                   s1 = (if isRemotable key then
                           let s0 = generateOrdinal E c1 key s in
                           if hasWeakKeys c1 then addRecognizableValue key s0
                           else addReachableVref (getSlotForVal key) s0
                         else s)
               in case serialize E val of
                    Inl e \<Rightarrow> (Inl e, c1, s1)
                  | Inr serializedValue \<Rightarrow>
                      let s2 = fold addReachableVref (slots serializedValue) s1
                      in case keyToDBKey E c1 s2 key of
                           Inl e \<Rightarrow> (Inl e, c1, s2)
                         | Inr dbKey \<Rightarrow>
                             (Inr (), c1\<lparr>size_c := size_c c1 + 1\<rparr>,
                              vatstoreSet dbKey (Json (JCap serializedValue)) s2))"

definition set_c :: "env \<Rightarrow> collection \<Rightarrow> sys \<Rightarrow> passable \<Rightarrow> passable \<Rightarrow> (error + unit) \<times> collection \<times> sys" where
  "set_c E c s key val =
     (if \<not> matches E key (keySchema c) then (Inl SchemaViolation, c, s)
      else case keyToDBKey E c s key of
             Inl e \<Rightarrow> (Inl e, c, s)
           | Inr dbKey \<Rightarrow>
               (case vatstoreGet s dbKey of
                  None \<Rightarrow> (Inl NotFound, c, s)
                | Some rawBefore \<Rightarrow>
                    if \<not> truthy rawBefore then (Inl NotFound, c, s)
                    else case parseCapData rawBefore of
                           Inl e \<Rightarrow> (Inl e, c, s)
                         | Inr before \<Rightarrow>
                             (case serialize E (harden E val) of
                                Inl e \<Rightarrow> (Inl e, c, s)
                              | Inr after \<Rightarrow>
                                  let s1 = updateReferenceCounts (slots before) (slots after) s
                                  in (Inr (), c, vatstoreSet dbKey (Json (JCap after)) s1))))"

definition deleteInternal :: "env \<Rightarrow> collection \<Rightarrow> sys \<Rightarrow> passable \<Rightarrow> (error + unit) \<times> collection \<times> sys" where
  "deleteInternal E c s key =
     (if \<not> matches E key (keySchema c) then (Inl SchemaViolation, c, s)
      else case keyToDBKey E c s key of
             Inl e \<Rightarrow> (Inl e, c, s)
           | Inr dbKey \<Rightarrow>
               (case vatstoreGet s dbKey of
                  None \<Rightarrow> (Inl NotFound, c, s)
                | Some rawValue \<Rightarrow>
                    if \<not> truthy rawValue then (Inl NotFound, c, s)
                    else case parseCapData rawValue of
                           Inl e \<Rightarrow> (Inl e, c, s)
                         | Inr val \<Rightarrow>
                             let s1 = fold removeReachableVref (slots val) s;
                                 s2 = vatstoreDelete dbKey s1;
                                 s3 = (if isRemotable key then
                                         deleteOrdinal c key
                                           (if hasWeakKeys c then removeRecognizableValue key s2
                                            else removeReachableVref (getSlotForVal key) s2)
                                       else s2)
                             in (Inr (), c\<lparr>size_c := size_c c - 1\<rparr>, s3)))"

definition del :: "env \<Rightarrow> collection \<Rightarrow> sys \<Rightarrow> passable \<Rightarrow> (error + unit) \<times> collection \<times> sys" where
  "del E c s key =
     deleteInternal E (c\<lparr>currentGenerationNumber := currentGenerationNumber c + 1\<rparr>) s key"

subsection \<open>The range iterator: \<^verbatim>\<open>entriesInternal\<close>\<close>

text \<open>
  The generator \<^verbatim>\<open>iter\<close> of \<^verbatim>\<open>entriesInternal\<close> has not started, is suspended at its
  \<^verbatim>\<open>yield\<close> (and then holds \<^verbatim>\<open>generationAtStart\<close>), or has finished. \<^verbatim>\<open>keyPatt\<close> and
  \<^verbatim>\<open>valuePatt\<close> default to \<^verbatim>\<open>M.any()\<close> when \<^verbatim>\<open>undefined\<close> is passed.
\<close>

datatype genState = NotStarted | Suspended nat | Finished

record iterator =
  priorDBKey :: string
  startKey :: string
  endKey :: string
  keyPatt :: passable
  valuePatt :: passable
  ignoreValues :: bool
  gen :: genState

definition entriesInternal :: "env \<Rightarrow> collection \<Rightarrow> sys \<Rightarrow> bool \<Rightarrow> passable \<Rightarrow> passable \<Rightarrow> error + iterator" where
  "entriesInternal E c s needValue keyPattArg valuePattArg =
     (let keyPatt = (if keyPattArg = PUndefined then M_any E else keyPattArg);
          valuePatt = (if valuePattArg = PUndefined then M_any E else valuePattArg)
      in if \<not> isKeyPattern E keyPatt then Inl NotKeyPattern
         else if \<not> pattEq E valuePatt (M_any E) then Inl UnsupportedValuePattern
         else case getRankCover E keyPatt (encodeKey E c s) of
                Inl e \<Rightarrow> Inl e
              | Inr (coverStart, coverEnd) \<Rightarrow>
                  Inr \<lparr>priorDBKey = [], startKey = prefix c coverStart, endKey = prefix c coverEnd,
                       keyPatt = keyPatt, valuePatt = valuePatt,
                       ignoreValues = (\<not> needValue \<and> pattEq E valuePatt (M_any E)),
                       gen = NotStarted\<rparr>)"

lemma vatstoreGetAfter_Some:
  assumes "vatstoreGetAfter s p lo hi = Some (k, v)"
  shows "p < k \<and> lo \<le> k \<and> k < hi \<and> (k, v) \<in> set (vatstore s)"
proof -
  let ?cands = "filter (\<lambda>(k, v). p < k \<and> lo \<le> k \<and> k < hi) (vatstore s)"
  from assms have ne: "?cands \<noteq> []" and kv: "(k, v) = arg_min_list fst ?cands"
    by (auto simp: vatstoreGetAfter_def Let_def split: if_splits)
  from arg_min_list_in [OF ne] kv have "(k, v) \<in> set ?cands"
    by simp
  then show ?thesis by auto
qed

lemma vatstoreGetAfter_measure:
  assumes "vatstoreGetAfter s p lo hi = Some (x, y)"
  shows "card {k \<in> fst ` set (vatstore s). x < k} < card {k \<in> fst ` set (vatstore s). p < k}"
proof (rule psubset_card_mono)
  show "finite {k \<in> fst ` set (vatstore s). p < k}"
    by simp
  from vatstoreGetAfter_Some [OF assms] have px: "p < x" and mem: "x \<in> fst ` set (vatstore s)"
    by (auto intro: rev_image_eqI)
  from px mem show "{k \<in> fst ` set (vatstore s). x < k} \<subset> {k \<in> fst ` set (vatstore s). p < k}"
    by auto
qed

function iter_loop :: "env \<Rightarrow> collection \<Rightarrow> sys \<Rightarrow> nat \<Rightarrow> iterator \<Rightarrow> (error + (passable \<times> passable) option) \<times> iterator" where
  "iter_loop E c s generationAtStart it =
     (if generationAtStart \<noteq> currentGenerationNumber c then
        (Inl ConcurrentModification, it\<lparr>gen := Finished\<rparr>)
      else case vatstoreGetAfter s (priorDBKey it) (startKey it) (endKey it) of
        None \<Rightarrow> (Inr None, it\<lparr>gen := Finished\<rparr>)
      | Some (dbKey, dbValue) \<Rightarrow>
          if dbKey < endKey it then
            let it1 = it\<lparr>priorDBKey := dbKey\<rparr> in
            case dbKeyToKey c dbKey of
              Inl e \<Rightarrow> (Inl e, it1\<lparr>gen := Finished\<rparr>)
            | Inr key \<Rightarrow>
                if matches E key (keyPatt it) then
                  if \<not> ignoreValues it then
                    case parseCapData dbValue of
                      Inl e \<Rightarrow> (Inl e, it1\<lparr>gen := Finished\<rparr>)
                    | Inr cd \<Rightarrow>
                        let val = unserialize E cd in
                        if \<not> matches E val (valuePatt it) then
                          iter_loop E c s generationAtStart it1
                        else (Inr (Some (key, val)), it1\<lparr>gen := Suspended generationAtStart\<rparr>)
                  else (Inr (Some (key, PUndefined)), it1\<lparr>gen := Suspended generationAtStart\<rparr>)
                else iter_loop E c s generationAtStart it1
          else iter_loop E c s generationAtStart it)"
  by pat_completeness auto
termination
proof (relation "measure (\<lambda>(E, c, s, g, it). card {k \<in> fst ` set (vatstore s). priorDBKey it < k})",
    goal_cases)
  case 1
  show ?case by simp
next
  case (2 E c s g it x2 x y xa b ba xb)
  then show ?case
    using vatstoreGetAfter_measure [of s "priorDBKey it" "startKey it" "endKey it" x y] by simp
next
  case (3 E c s g it x2 x y xa b)
  then show ?case
    using vatstoreGetAfter_measure [of s "priorDBKey it" "startKey it" "endKey it" x y] by simp
next
  case (4 E c s g it x2 x y)
  then show ?case
    using vatstoreGetAfter_Some [of s "priorDBKey it" "startKey it" "endKey it" x y] by simp
qed

declare iter_loop.simps [simp del]


definition iter_next :: "env \<Rightarrow> collection \<Rightarrow> sys \<Rightarrow> iterator \<Rightarrow> (error + (passable \<times> passable) option) \<times> iterator" where
  "iter_next E c s it =
     (case gen it of
        Finished \<Rightarrow> (Inr None, it)
      | NotStarted \<Rightarrow> iter_loop E c s (currentGenerationNumber c) it
      | Suspended generationAtStart \<Rightarrow> iter_loop E c s generationAtStart it)"

datatype outerState = Fresh | Running iterator | Closed

record generator =
  needValue :: bool
  keyPattArg :: passable
  valuePattArg :: passable
  state :: outerState

definition outer_step :: "env \<Rightarrow> collection \<Rightarrow> sys \<Rightarrow> generator \<Rightarrow> iterator \<Rightarrow> (error + (passable \<times> passable) option) \<times> generator" where
  "outer_step E c s g it =
     (case iter_next E c s it of
        (Inl e, it') \<Rightarrow> (Inl e, g\<lparr>state := Closed\<rparr>)
      | (Inr None, it') \<Rightarrow> (Inr None, g\<lparr>state := Closed\<rparr>)
      | (Inr (Some entry), it') \<Rightarrow> (Inr (Some entry), g\<lparr>state := Running it'\<rparr>))"

definition outer_next :: "env \<Rightarrow> collection \<Rightarrow> sys \<Rightarrow> generator \<Rightarrow> (error + (passable \<times> passable) option) \<times> generator" where
  "outer_next E c s g =
     (case state g of
        Closed \<Rightarrow> (Inr None, g)
      | Fresh \<Rightarrow>
          (case entriesInternal E c s (needValue g) (keyPattArg g) (valuePattArg g) of
             Inl e \<Rightarrow> (Inl e, g\<lparr>state := Closed\<rparr>)
           | Inr it \<Rightarrow> outer_step E c s g it)
      | Running it \<Rightarrow> outer_step E c s g it)"

definition keys :: "passable \<Rightarrow> passable \<Rightarrow> generator" where
  "keys kp vp =
     \<lparr>needValue = False, keyPattArg = kp, valuePattArg = vp, state = Fresh\<rparr>"

definition values_c :: "passable \<Rightarrow> passable \<Rightarrow> generator" where
  "values_c kp vp =
     \<lparr>needValue = True, keyPattArg = kp, valuePattArg = vp, state = Fresh\<rparr>"

definition entries :: "passable \<Rightarrow> passable \<Rightarrow> generator" where
  "entries kp vp =
     \<lparr>needValue = True, keyPattArg = kp, valuePattArg = vp, state = Fresh\<rparr>"

definition keys_next :: "env \<Rightarrow> collection \<Rightarrow> sys \<Rightarrow> generator \<Rightarrow> (error + passable option) \<times> generator" where
  "keys_next E c s g = map_prod (map_sum id (map_option fst)) id (outer_next E c s g)"

definition values_next :: "env \<Rightarrow> collection \<Rightarrow> sys \<Rightarrow> generator \<Rightarrow> (error + passable option) \<times> generator" where
  "values_next E c s g = map_prod (map_sum id (map_option snd)) id (outer_next E c s g)"

definition entries_next :: "env \<Rightarrow> collection \<Rightarrow> sys \<Rightarrow> generator \<Rightarrow> (error + (passable \<times> passable) option) \<times> generator" where
  "entries_next E c s g = outer_next E c s g"

lemma iter_loop_yield:
  "iter_loop E c s g it = (Inr (Some e), it') \<Longrightarrow>
     priorDBKey it < priorDBKey it' \<and> priorDBKey it' \<in> fst ` set (vatstore s) \<and>
     gen it' = Suspended g \<and> g = currentGenerationNumber c"
proof (induction E c s g it rule: iter_loop.induct)
  case (1 E c s g it)
  have unf: "(if g \<noteq> currentGenerationNumber c then
        (Inl ConcurrentModification, it\<lparr>gen := Finished\<rparr>)
      else case vatstoreGetAfter s (priorDBKey it) (startKey it) (endKey it) of
        None \<Rightarrow> (Inr None, it\<lparr>gen := Finished\<rparr>)
      | Some (dbKey, dbValue) \<Rightarrow>
          if dbKey < endKey it then
            let it1 = it\<lparr>priorDBKey := dbKey\<rparr> in
            case dbKeyToKey c dbKey of
              Inl e \<Rightarrow> (Inl e, it1\<lparr>gen := Finished\<rparr>)
            | Inr key \<Rightarrow>
                if matches E key (keyPatt it) then
                  if \<not> ignoreValues it then
                    case parseCapData dbValue of
                      Inl e \<Rightarrow> (Inl e, it1\<lparr>gen := Finished\<rparr>)
                    | Inr cd \<Rightarrow>
                        let val = unserialize E cd in
                        if \<not> matches E val (valuePatt it) then
                          iter_loop E c s g it1
                        else (Inr (Some (key, val)), it1\<lparr>gen := Suspended g\<rparr>)
                  else (Inr (Some (key, PUndefined)), it1\<lparr>gen := Suspended g\<rparr>)
                else iter_loop E c s g it1
          else iter_loop E c s g it) = (Inr (Some e), it')"
    using "1.prems" by (subst (asm) iter_loop.simps) simp
  have geq: "g = currentGenerationNumber c"
    using unf by (simp split: if_splits)
  obtain x y where ga: "vatstoreGetAfter s (priorDBKey it) (startKey it) (endKey it) = Some (x, y)"
    using unf geq by (cases "vatstoreGetAfter s (priorDBKey it) (startKey it) (endKey it)") auto
  from vatstoreGetAfter_Some [OF ga]
  have px: "priorDBKey it < x" and xe: "x < endKey it" and mem: "x \<in> fst ` set (vatstore s)"
    by (auto intro: rev_image_eqI)
  let ?it1 = "it\<lparr>priorDBKey := x\<rparr>"
  obtain key where dk: "dbKeyToKey c x = Inr key"
    using unf geq ga xe by (cases "dbKeyToKey c x") (auto simp: Let_def)
  consider (rec1) cd where "matches E key (keyPatt it)" "\<not> ignoreValues it"
        "parseCapData y = Inr cd" "\<not> matches E (unserialize E cd) (valuePatt it)"
        "iter_loop E c s g ?it1 = (Inr (Some e), it')"
    | (rec2) "\<not> matches E key (keyPatt it)" "iter_loop E c s g ?it1 = (Inr (Some e), it')"
    | (yield) "it' = ?it1\<lparr>gen := Suspended g\<rparr>"
    using unf geq ga xe dk
    by (cases "parseCapData y") (auto simp: Let_def split: if_splits)
  then show ?case
  proof cases
    case rec1
    from "1.IH"(1) [OF _ ga refl xe refl dk rec1(1) rec1(2) rec1(3) refl rec1(4) rec1(5)] geq
    have "priorDBKey ?it1 < priorDBKey it' \<and> priorDBKey it' \<in> fst ` set (vatstore s) \<and>
      gen it' = Suspended g \<and> g = currentGenerationNumber c"
      by simp
    with px show ?thesis by auto
  next
    case rec2
    from "1.IH"(2) [OF _ ga refl xe refl dk rec2(1) rec2(2)] geq
    have "priorDBKey ?it1 < priorDBKey it' \<and> priorDBKey it' \<in> fst ` set (vatstore s) \<and>
      gen it' = Suspended g \<and> g = currentGenerationNumber c"
      by simp
    with px show ?thesis by auto
  next
    case yield
    with px mem geq show ?thesis by simp
  qed
qed


lemma vatstore_addReachableVref [simp]: "vatstore (addReachableVref v s) = vatstore s"
  by (simp add: addReachableVref_def)

lemma vatstore_removeReachableVref [simp]: "vatstore (removeReachableVref v s) = vatstore s"
  by (simp add: removeReachableVref_def)

lemma vatstore_fold_addReachableVref [simp]: "vatstore (fold addReachableVref vs s) = vatstore s"
  by (induction vs arbitrary: s) simp_all

lemma vatstore_fold_removeReachableVref [simp]:
  "vatstore (fold removeReachableVref vs s) = vatstore s"
  by (induction vs arbitrary: s) simp_all

lemma vatstore_updateReferenceCounts [simp]:
  "vatstore (updateReferenceCounts bs as s) = vatstore s"
  by (simp add: updateReferenceCounts_def)

lemma vatstore_addRecognizableValue [simp]: "vatstore (addRecognizableValue v s) = vatstore s"
  by (simp add: addRecognizableValue_def)

lemma vatstore_removeRecognizableValue [simp]:
  "vatstore (removeRecognizableValue v s) = vatstore s"
  by (simp add: removeRecognizableValue_def)

lemma vatstore_vatstoreSet [simp]:
  "vatstore (vatstoreSet k v s) = AList.update k v (vatstore s)"
  by (simp add: vatstoreSet_def)

lemma vatstore_vatstoreDelete [simp]:
  "vatstore (vatstoreDelete k s) = AList.delete k (vatstore s)"
  by (simp add: vatstoreDelete_def)

lemma in_set_deleteD: "(a, b) \<in> set (AList.delete k al) \<Longrightarrow> (a, b) \<in> set al"
  by (induction al) (auto split: if_splits)

lemma deleteInternal_keys_subset:
  assumes "deleteInternal E c s key = (r, c', s')"
  shows "fst ` set (vatstore s') \<subseteq> fst ` set (vatstore s)"
  using assms
  by (auto simp: deleteInternal_def deleteOrdinal_def Let_def
      split: if_splits sum.splits option.splits dest!: in_set_deleteD intro: rev_image_eqI)

lemma iter_next_yield:
  assumes "iter_next E c s it = (Inr (Some e), it')"
  shows "priorDBKey it < priorDBKey it' \<and> priorDBKey it' \<in> fst ` set (vatstore s) \<and>
     gen it' = Suspended (currentGenerationNumber c)"
proof (cases "gen it")
  case NotStarted
  with assms iter_loop_yield [of E c s "currentGenerationNumber c" it e it'] show ?thesis
    by (simp add: iter_next_def)
next
  case (Suspended g)
  with assms iter_loop_yield [of E c s g it e it'] show ?thesis
    by (simp add: iter_next_def)
next
  case Finished
  with assms show ?thesis by (simp add: iter_next_def)
qed

lemma outer_step_yield:
  assumes "outer_step E c s g it = (Inr (Some e), g')"
  shows "\<exists>it'. g' = g\<lparr>state := Running it'\<rparr> \<and> iter_next E c s it = (Inr (Some e), it')"
  using assms
  by (auto simp: outer_step_def split: prod.splits sum.splits option.splits)

lemma outer_next_yield:
  assumes "outer_next E c s g = (Inr (Some e), g')"
  shows "\<exists>it'. g' = g\<lparr>state := Running it'\<rparr> \<and>
     priorDBKey it' \<in> fst ` set (vatstore s) \<and>
     gen it' = Suspended (currentGenerationNumber c) \<and>
     (\<forall>it. state g = Running it \<longrightarrow> priorDBKey it < priorDBKey it')"
proof (cases "state g")
  case Fresh
  with assms obtain it where "outer_step E c s g it = (Inr (Some e), g')"
    by (auto simp: outer_next_def split: sum.splits)
  from outer_step_yield [OF this] obtain it' where g': "g' = g\<lparr>state := Running it'\<rparr>"
    and nx: "iter_next E c s it = (Inr (Some e), it')"
    by blast
  from iter_next_yield [OF nx] g' Fresh show ?thesis
    by (intro exI [of _ it']) simp
next
  case (Running it)
  with assms have "outer_step E c s g it = (Inr (Some e), g')"
    by (simp add: outer_next_def)
  from outer_step_yield [OF this] obtain it' where g': "g' = g\<lparr>state := Running it'\<rparr>"
    and nx: "iter_next E c s it = (Inr (Some e), it')"
    by blast
  from iter_next_yield [OF nx] g' Running show ?thesis
    by (intro exI [of _ it']) simp
next
  case Closed
  with assms show ?thesis by (simp add: outer_next_def)
qed

lemma keys_next_yield:
  assumes "keys_next E c s g = (Inr (Some k), g')"
  shows "\<exists>it'. g' = g\<lparr>state := Running it'\<rparr> \<and>
     priorDBKey it' \<in> fst ` set (vatstore s) \<and>
     gen it' = Suspended (currentGenerationNumber c) \<and>
     (\<forall>it. state g = Running it \<longrightarrow> priorDBKey it < priorDBKey it')"
proof -
  obtain r where on: "outer_next E c s g = (r, g')" and r: "map_sum id (map_option fst) r = Inr (Some k)"
    using assms by (cases "outer_next E c s g") (simp add: keys_next_def)
  from r obtain e where "r = Inr (Some e)"
    by (cases r) auto
  with on have "outer_next E c s g = (Inr (Some e), g')"
    by simp
  from outer_next_yield [OF this] show ?thesis .
qed

lemma scan_measure_step:
  fixes K K' :: "string set"
  assumes "K' \<subseteq> K" "finite K" "p' \<in> K" "p < p'"
  shows "card {k \<in> K'. p' < k} < card {k \<in> K. p < k}"
proof (rule psubset_card_mono)
  show "finite {k \<in> K. p < k}"
    using assms(2) by simp
  show "{k \<in> K'. p' < k} \<subset> {k \<in> K. p < k}"
    using assms by auto
qed

function clear_loop :: "env \<Rightarrow> collection \<Rightarrow> sys \<Rightarrow> generator \<Rightarrow> (error + unit) \<times> collection \<times> sys" where
  "clear_loop E c s g =
     (case keys_next E c s g of
        (Inl e, g') \<Rightarrow> (Inl e, c, s)
      | (Inr None, g') \<Rightarrow> (Inr (), c, s)
      | (Inr (Some k), g') \<Rightarrow>
          (case deleteInternal E c s k of
             (Inl e, c', s') \<Rightarrow> (Inl e, c', s')
           | (Inr u, c', s') \<Rightarrow> clear_loop E c' s' g'))"
  by pat_completeness auto
termination
proof (relation "measure (\<lambda>(E, c, s, g).
           case state g of
             Fresh \<Rightarrow> card (fst ` set (vatstore s)) + 1
           | Running it \<Rightarrow> card {k \<in> fst ` set (vatstore s). priorDBKey it < k}
           | Closed \<Rightarrow> 0)", goal_cases)
  case 1
  show ?case by simp
next
  case (2 E c s g x g' b k xa ya u c' s')
  then have kn: "keys_next E c s g = (Inr (Some k), g')"
    and di: "deleteInternal E c s k = (Inr u, c', s')"
    by simp_all
  from keys_next_yield [OF kn] obtain it' where g': "g' = g\<lparr>state := Running it'\<rparr>"
    and mem: "priorDBKey it' \<in> fst ` set (vatstore s)"
    and lt: "\<forall>it. state g = Running it \<longrightarrow> priorDBKey it < priorDBKey it'"
    by blast
  note sub = deleteInternal_keys_subset [OF di]
  show ?case
  proof (cases "state g")
    case Fresh
    have "card {k \<in> fst ` set (vatstore s'). priorDBKey it' < k} \<le> card (fst ` set (vatstore s))"
      using sub by (intro card_mono) auto
    with Fresh g' show ?thesis by simp
  next
    case (Running it)
    with lt have "priorDBKey it < priorDBKey it'" by simp
    from scan_measure_step [OF sub _ mem this] Running g' show ?thesis by simp
  next
    case Closed
    with kn show ?thesis by (simp add: keys_next_def outer_next_def)
  qed
qed

declare clear_loop.simps [simp del]

definition clear :: "env \<Rightarrow> collection \<Rightarrow> sys \<Rightarrow> passable \<Rightarrow> passable \<Rightarrow> (error + unit) \<times> collection \<times> sys" where
  "clear E c s kp vp =
     (case clear_loop E c s (keys kp vp) of
        (Inl e, c', s') \<Rightarrow> (Inl e, c', s')
      | (Inr u, c', s') \<Rightarrow>
          (Inr (), c'\<lparr>currentGenerationNumber := currentGenerationNumber c' + 1\<rparr>, s'))"

subsection \<open>Lifecycle: the kind registry, \<^verbatim>\<open>makeCollection\<close> and the reanimator\<close>

text \<open>
  The state of the collection manager itself: the module-level \<^verbatim>\<open>nextCollectionID\<close>, the
  \<^verbatim>\<open>kindID\<close> column of \<^verbatim>\<open>storeKindInfo\<close> and the map \<^verbatim>\<open>storeKindIDToName\<close>.
\<close>

record manager =
  nextCollectionID :: nat
  storeKindInfoNeedsInitialization :: bool
  kindID :: "kind \<Rightarrow> nat"
  storeKindIDToName :: "(nat \<times> kind) list"

definition initialManager :: manager where
  "initialManager =
     \<lparr>nextCollectionID = 1, storeKindInfoNeedsInitialization = True, kindID = (\<lambda>k. 0),
      storeKindIDToName = []\<rparr>"

definition allocateCollectionID :: "manager \<Rightarrow> nat \<times> manager" where
  "allocateCollectionID m = (nextCollectionID m, m\<lparr>nextCollectionID := nextCollectionID m + 1\<rparr>)"

text \<open>One round of the loop over the kind names in \<^verbatim>\<open>obtainStoreKindID\<close>.\<close>

definition registerKind :: "kind \<Rightarrow> (kind \<times> nat) list \<times> manager \<times> sys \<Rightarrow> (kind \<times> nat) list \<times> manager \<times> sys" where
  "registerKind kindName acc =
     (case acc of (storeKindIDs, m, s) \<Rightarrow>
        let known = (case map_of storeKindIDs kindName of None \<Rightarrow> 0 | Some k \<Rightarrow> k);
            (kid, storeKindIDs1, s1) =
              (if known = 0 then
                 (case allocateExportID s of
                    (fresh, s') \<Rightarrow> (fresh, AList.update kindName fresh storeKindIDs, s'))
               else (known, storeKindIDs, s))
        in (storeKindIDs1,
            m\<lparr>kindID := (kindID m)(kindName := kid),
              storeKindIDToName := AList.update kid kindName (storeKindIDToName m)\<rparr>,
            registerReanimator kid kindName s1))"

definition obtainStoreKindID :: "manager \<Rightarrow> sys \<Rightarrow> kind \<Rightarrow> (error + nat) \<times> manager \<times> sys" where
  "obtainStoreKindID m s kindName =
     (if storeKindInfoNeedsInitialization m then
        let m0 = m\<lparr>storeKindInfoNeedsInitialization := False\<rparr>;
            rawTable = vatstoreGet s ''storeKindIDTable'';
            parsed = (case rawTable of
                        None \<Rightarrow> Inr []
                      | Some r \<Rightarrow>
                          if truthy r then
                            (case r of
                               Json (JTable t) \<Rightarrow> Inr t
                             | Json (JCap cd) \<Rightarrow> Inr []
                             | Raw str \<Rightarrow> Inl SyntaxError)
                          else Inr [])
        in case parsed of
             Inl e \<Rightarrow> (Inl e, m0, s)
           | Inr storeKindIDs \<Rightarrow>
               (case fold registerKind
                       [scalarMapStore, scalarWeakMapStore, scalarSetStore, scalarWeakSetStore]
                       (storeKindIDs, m0, s) of
                  (storeKindIDs1, m1, s1) \<Rightarrow>
                    (Inr (kindID m1 kindName), m1,
                     vatstoreSet ''storeKindIDTable'' (Json (JTable storeKindIDs1)) s1))
      else (Inr (kindID m kindName), m, s))"

text \<open>
  \<^verbatim>\<open>summonCollection(label, collectionID, kindName, keySchema = M.scalar())\<close>. The two first
  parameters only ever reach template literals, so they are values of any type.
\<close>

definition summonCollection :: "env \<Rightarrow> sys \<Rightarrow> jsval \<Rightarrow> jsval \<Rightarrow> kind \<Rightarrow> passable \<Rightarrow> collection \<times> sys" where
  "summonCollection E s lbl collectionID kindName schema =
     (let c = \<lparr>label = lbl,
               dbKeyPrefix = ''vc.'' @ templateText collectionID @ ''.'',
               hasWeakKeys = kindHasWeakKeys kindName,
               keySchema = (if schema = PUndefined then M_scalar E else schema),
               currentGenerationNumber = 0,
               size_c = 0\<rparr>
      in (c, s\<lparr>droppedCollectionRegistry := prefix c ''|'' # droppedCollectionRegistry s\<rparr>))"

definition prefixc :: "jsval \<Rightarrow> string \<Rightarrow> string" where
  "prefixc collectionID dbEntryKey = ''vc.'' @ templateText collectionID @ ''.'' @ dbEntryKey"

definition makeCollection :: "env \<Rightarrow> manager \<Rightarrow> sys \<Rightarrow> jsval \<Rightarrow> kind \<Rightarrow> passable \<Rightarrow> (error + string \<times> collection) \<times> manager \<times> sys" where
  "makeCollection E m s lbl kindName schemaArg =
     (let schema = (if schemaArg = PUndefined then M_scalar E else schemaArg) in
      case lbl of
        JStr labelText \<Rightarrow>
          if \<not> isKeyPattern E schema then (Inl NotKeyPattern, m, s)
          else
            (case allocateCollectionID m of
               (collectionID, m1) \<Rightarrow>
                 (case obtainStoreKindID m1 s kindName of
                    (Inl e, m2, s2) \<Rightarrow> (Inl e, m2, s2)
                  | (Inr kid, m2, s2) \<Rightarrow>
                      let vobjID = ''o+'' @ toStringRadix 10 kid @ ''/'' @ toStringRadix 10 collectionID;
                          s3 = vatstoreSet (prefixc (JNum collectionID) ''|nextOrdinal'') (Raw ''1'') s2
                      in case serialize E schema of
                           Inl e \<Rightarrow> (Inl e, m2, s3)
                         | Inr serializedSchema \<Rightarrow>
                             let s4 = vatstoreSet (prefixc (JNum collectionID) ''|keySchema'')
                                        (Json (JCap serializedSchema)) s3;
                                 s5 = vatstoreSet (prefixc (JNum collectionID) ''|label'')
                                        (Raw labelText) s4
                             in case summonCollection E s5 lbl (JNum collectionID) kindName schema of
                                  (c, s6) \<Rightarrow> (Inr (vobjID, c), m2, s6)))
      | _ \<Rightarrow> (Inl TypeError, m, s))"

text \<open>
  Modelled from the spec: \<^verbatim>\<open>parseVatSlot\<close> lives in \<^verbatim>\<open>parseVatSlots.js\<close>. It splits the
  external identifier \<open>o+<kindID>/<collectionID>\<close> into \<open>id\<close> and \<open>subid\<close>.
\<close>

definition parseVatSlot :: "string \<Rightarrow> (nat \<times> nat) option" where
  "parseVatSlot vobjID =
     (if take 2 vobjID = ''o+'' then
        let rest = drop 2 vobjID;
            idText = takeWhile (\<lambda>ch. ch \<noteq> CHR ''/'') rest;
            subidText = drop (length idText + 1) rest
        in if idText = [] \<or> subidText = [] \<or> length idText = length rest then None
           else (case (parseDigitsFrom 10 0 idText, parseDigitsFrom 10 0 subidText) of
                   (Some i, Some j) \<Rightarrow> Some (i, j)
                 | _ \<Rightarrow> None)
      else None)"

definition reanimateCollection :: "env \<Rightarrow> manager \<Rightarrow> sys \<Rightarrow> string \<Rightarrow> bool \<Rightarrow> (error + collection option) \<times> sys" where
  "reanimateCollection E m s vobjID proForma =
     (if proForma then (Inr None, s)
      else case parseVatSlot vobjID of
        None \<Rightarrow> (Inl SyntaxError, s)
      | Some (i, subid) \<Rightarrow>
          let kindName = map_of (storeKindIDToName m) i in
          (case vatstoreGet s (prefixc (JNum subid) ''|keySchema'') of
             None \<Rightarrow> (Inl SyntaxError, s)
           | Some schemaRow \<Rightarrow>
               (case parseCapData schemaRow of
                  Inl e \<Rightarrow> (Inl e, s)
                | Inr cd \<Rightarrow>
                    let schema = unserialize E cd;
                        lbl = (case vatstoreGet s (prefixc (JNum subid) ''|label'') of
                                 None \<Rightarrow> JUndefined
                               | Some r \<Rightarrow> JStr (rowText E r))
                    in case kindName of
                         None \<Rightarrow> (Inl TypeError, s)
                       | Some kn \<Rightarrow>
                           (case summonCollection E s (JNum subid) lbl kn schema of
                              (c, s') \<Rightarrow> (Inr (Some c), s')))))"

subsection \<open>An instance of the external collaborators\<close>

text \<open>
  To run the model on concrete inputs: a pattern kit that knows \<^verbatim>\<open>M.any()\<close>,
  \<^verbatim>\<open>M.scalar()\<close> and \<^verbatim>\<open>M.string()\<close> and gives every key pattern the rank cover of
  \<^verbatim>\<open>M.any()\<close>, and a marshaller for strings, remotables and these patterns that refuses
  an object that is not frozen.
\<close>

fun isScalar :: "passable \<Rightarrow> bool" where
  "isScalar (PCopyArray xs) = False"
| "isScalar (PTagged tag payload) = False"
| "isScalar (PPromise p) = False"
| "isScalar (PError msg) = False"
| "isScalar (PUnhardened v) = False"
| "isScalar _ = True"

fun isString :: "passable \<Rightarrow> bool" where
  "isString (PString str) = True"
| "isString _ = False"

definition exampleMatches :: "passable \<Rightarrow> passable \<Rightarrow> bool" where
  "exampleMatches specimen patt =
     (if patt = PTagged ''match:any'' PNull then True
      else if patt = PTagged ''match:scalar'' PNull then isScalar specimen
      else if patt = PTagged ''match:string'' PNull then isString specimen
      else specimen = patt)"

fun exampleHarden :: "passable \<Rightarrow> passable" where
  "exampleHarden (PUnhardened v) = exampleHarden v"
| "exampleHarden v = v"

fun exampleSerialize :: "passable \<Rightarrow> error + capdata" where
  "exampleSerialize (PString str) = Inr \<lparr>body = CHR ''s'' # str, slots = []\<rparr>"
| "exampleSerialize (PRemotable slot) = Inr \<lparr>body = ''r'', slots = [slot]\<rparr>"
| "exampleSerialize (PTagged tag payload) = Inr \<lparr>body = CHR ''t'' # tag, slots = []\<rparr>"
| "exampleSerialize (PUnhardened v) = Inl NotPassable"
| "exampleSerialize _ = Inr \<lparr>body = ''z'', slots = []\<rparr>"

definition exampleUnserialize :: "capdata \<Rightarrow> passable" where
  "exampleUnserialize cd =
     (case body cd of
        [] \<Rightarrow> PNull
      | tag # rest \<Rightarrow>
          if tag = CHR ''s'' then PString rest
          else if tag = CHR ''t'' then PTagged rest PNull
          else if tag = CHR ''r'' then (case slots cd of [] \<Rightarrow> PNull | slot # _ \<Rightarrow> PRemotable slot)
          else PNull)"

definition exampleEnv :: env where
  "exampleEnv =
     \<lparr>matches = exampleMatches,
      isKeyPattern = (\<lambda>patt. True),
      compareRank = (\<lambda>a b. if a = b then 0 else 1),
      getRankCover = (\<lambda>patt enc. Inr ([], ''{'')),
      M_any = PTagged ''match:any'' PNull,
      M_scalar = PTagged ''match:scalar'' PNull,
      harden = exampleHarden,
      serialize = exampleSerialize,
      unserialize = exampleUnserialize,
      JSON_stringify = (\<lambda>j. ''{}'')\<rparr>"

definition emptySys :: sys where
  "emptySys =
     \<lparr>vatstore = [], reachable = (\<lambda>vref. 0), recognizable = (\<lambda>vref. 0), reanimators = [],
      droppedCollectionRegistry = [], nextExportID = 10\<rparr>"

text \<open>A handle as \<^verbatim>\<open>summonCollection\<close> builds it for collection 1.\<close>

definition exampleCollection :: "bool \<Rightarrow> passable \<Rightarrow> collection" where
  "exampleCollection weak schema =
     \<lparr>label = JStr ''foo'', dbKeyPrefix = ''vc.1.'', hasWeakKeys = weak, keySchema = schema,
      currentGenerationNumber = 0, size_c = 0\<rparr>"


text \<open>
  A generator of \<^verbatim>\<open>keys()\<close> on that collection, suspended after it has yielded the key
  \<open>'a'\<close> in a scan that started at generation \<open>n\<close>.
\<close>

definition exampleGenerator :: "nat \<Rightarrow> generator" where
  "exampleGenerator n =
     \<lparr>needValue = False, keyPattArg = PUndefined, valuePattArg = PUndefined,
      state = Running
        \<lparr>priorDBKey = ''vc.1.sa'', startKey = ''vc.1.'', endKey = ''vc.1.{'',
         keyPatt = PTagged ''match:any'' PNull, valuePatt = PTagged ''match:any'' PNull,
         ignoreValues = True, gen = Suspended n\<rparr>\<rparr>"

text \<open>The system in which collection 1 holds the single entry \<open>'a' \<mapsto> 'v'\<close>.\<close>

definition exampleSys :: sys where
  "exampleSys =
     emptySys\<lparr>vatstore := [(''vc.1.sa'', Json (JCap \<lparr>body = ''sv'', slots = []\<rparr>))]\<rparr>"

text \<open>The system just after \<^verbatim>\<open>makeCollection\<close> has written \<open>|nextOrdinal\<close> for collection 1.\<close>

definition freshSys :: sys where
  "freshSys = emptySys\<lparr>vatstore := [(''vc.1.|nextOrdinal'', Raw ''1'')]\<rparr>"

text \<open>A weak collection after \<^verbatim>\<open>init\<close> of the remotable with slot \<open>o-5\<close>.\<close>

definition exampleWeakInit :: "(error + unit) \<times> collection \<times> sys" where
  "exampleWeakInit =
     init exampleEnv (exampleCollection True (PTagged ''match:any'' PNull)) freshSys
       (PRemotable ''o-5'') (PString ''v'')"

text \<open>Collection 1 when its allocator has reached the ordinal \<open>n\<close>, written as \<open>text\<close>.\<close>

definition ordinalSys :: "string \<Rightarrow> sys" where
  "ordinalSys text = emptySys\<lparr>vatstore := [(''vc.1.|nextOrdinal'', Raw text)]\<rparr>"

subsection \<open>Evaluation rules\<close>

lemma toStringRadix_small [simp]: "n < r \<Longrightarrow> toStringRadix r n = [digitChar n]"
  by (simp add: toStringRadix.simps)

lemma toStringRadix_big [simp]:
  "\<not> n < r \<Longrightarrow> 2 \<le> r \<Longrightarrow>
     toStringRadix r n = toStringRadix r (n div r) @ [digitChar (n mod r)]"
  by (subst toStringRadix.simps) simp

section \<open>Basic facts about the store\<close>

lemma prefix_inject [simp]: "prefix c a = prefix c b \<longleftrightarrow> a = b"
  by (simp add: prefix_def)

lemma vatstoreGet_vatstoreSet [simp]:
  "vatstoreGet (vatstoreSet k v s) k' = (if k' = k then Some v else vatstoreGet s k')"
  by (simp add: vatstoreGet_def update_conv')

lemma vatstoreGet_vatstoreDelete [simp]:
  "vatstoreGet (vatstoreDelete k s) k' = (if k' = k then None else vatstoreGet s k')"
  by (simp add: vatstoreGet_def delete_conv')

lemma vatstoreGet_vrm [simp]:
  "vatstoreGet (addReachableVref v s) k = vatstoreGet s k"
  "vatstoreGet (removeReachableVref v s) k = vatstoreGet s k"
  "vatstoreGet (fold addReachableVref vs s) k = vatstoreGet s k"
  "vatstoreGet (fold removeReachableVref vs s) k = vatstoreGet s k"
  "vatstoreGet (updateReferenceCounts bs as s) k = vatstoreGet s k"
  "vatstoreGet (addRecognizableValue val s) k = vatstoreGet s k"
  "vatstoreGet (removeRecognizableValue val s) k = vatstoreGet s k"
  by (simp_all add: vatstoreGet_def)

lemma prefix_update [simp]:
  "prefix (c\<lparr>currentGenerationNumber := n\<rparr>) = prefix c"
  "prefix (c\<lparr>size_c := z\<rparr>) = prefix c"
  by (simp_all add: prefix_def fun_eq_iff)

lemma getOrdinal_generation [simp]:
  "getOrdinal (c\<lparr>currentGenerationNumber := n\<rparr>) s key = getOrdinal c s key"
  by (simp add: getOrdinal_def)

lemma getOrdinal_generateOrdinal:
  "getOrdinal c (generateOrdinal E c key s) key \<noteq> None"
  by (simp add: getOrdinal_def generateOrdinal_def Let_def)

lemma getOrdinal_vrm [simp]:
  "getOrdinal c (addReachableVref v s) key = getOrdinal c s key"
  "getOrdinal c (fold addReachableVref vs s) key = getOrdinal c s key"
  "getOrdinal c (addRecognizableValue val s) key = getOrdinal c s key"
  by (simp_all add: getOrdinal_def)

lemma keyToDBKey_not_remotable:
  "\<not> isRemotable key \<Longrightarrow> dbKeyPrefix c' = dbKeyPrefix c \<Longrightarrow>
     keyToDBKey E c' s' key = keyToDBKey E c s key"
  by (cases key) (simp_all add: keyToDBKey_def encodeKey_def prefix_def)

lemma keyToDBKey_remotable:
  "isRemotable key \<Longrightarrow> getOrdinal c s key \<noteq> None \<Longrightarrow> \<exists>k. keyToDBKey E c s key = Inr k"
  by (cases key) (auto simp: keyToDBKey_def encodeKey_def)

lemma generateOrdinal_generation [simp]:
  "generateOrdinal E (c\<lparr>currentGenerationNumber := n\<rparr>) key s = generateOrdinal E c key s"
  by (simp add: generateOrdinal_def)

lemma keyToDBKey_generation [simp]:
  "keyToDBKey E (c\<lparr>currentGenerationNumber := n\<rparr>) s key = keyToDBKey E c s key"
  by (cases key) (simp_all add: keyToDBKey_def encodeKey_def)

text \<open>
  The system after \<^verbatim>\<open>init\<close> has allocated the ordinal and referenced the key, where it
  calls \<^verbatim>\<open>serialize\<close>, and the system after it has counted the slots of the serialized
  value, just before it writes the row.
\<close>

definition initOrdinal :: "env \<Rightarrow> collection \<Rightarrow> sys \<Rightarrow> passable \<Rightarrow> sys" where
  "initOrdinal E c s key =
     (if isRemotable key then
        (if hasWeakKeys c then addRecognizableValue key (generateOrdinal E c key s)
         else addReachableVref (getSlotForVal key) (generateOrdinal E c key s))
      else s)"

definition initRefs :: "env \<Rightarrow> collection \<Rightarrow> sys \<Rightarrow> passable \<Rightarrow> capdata \<Rightarrow> sys" where
  "initRefs E c s key cd = fold addReachableVref (slots cd) (initOrdinal E c s key)"

lemma init_absent_refused:
  assumes "matches E key (keySchema c)" "has E c s key = Inr False" "serialize E val = Inl e"
  shows "init E c s key val =
     (Inl e, c\<lparr>currentGenerationNumber := currentGenerationNumber c + 1\<rparr>, initOrdinal E c s key)"
  using assms
  by (cases "isRemotable key"; cases "hasWeakKeys c")
     (simp_all add: init_def initOrdinal_def Let_def)

lemma init_absent_unfold:
  assumes "matches E key (keySchema c)" "has E c s key = Inr False" "serialize E val = Inr cd"
  shows "init E c s key val =
     (case keyToDBKey E c (initRefs E c s key cd) key of
        Inl e \<Rightarrow> (Inl e, c\<lparr>currentGenerationNumber := currentGenerationNumber c + 1\<rparr>,
                  initRefs E c s key cd)
      | Inr dbKey \<Rightarrow>
          (Inr (), c\<lparr>currentGenerationNumber := currentGenerationNumber c + 1,
                     size_c := size_c c + 1\<rparr>,
           vatstoreSet dbKey (Json (JCap cd)) (initRefs E c s key cd)))"
  using assms
  by (cases "isRemotable key"; cases "hasWeakKeys c")
     (simp_all add: init_def initRefs_def initOrdinal_def Let_def split: sum.splits)

lemma keyToDBKey_initRefs:
  assumes "matches E key (keySchema c)" "has E c s key = Inr False"
  shows "\<exists>k. keyToDBKey E c (initRefs E c s key cd) key = Inr k"
proof (cases "isRemotable key")
  case True
  have "getOrdinal c (generateOrdinal E c key s) key \<noteq> None"
    by (rule getOrdinal_generateOrdinal)
  with True have "getOrdinal c (initRefs E c s key cd) key \<noteq> None"
    by (simp add: initRefs_def initOrdinal_def)
  with True show ?thesis
    by (intro keyToDBKey_remotable)
next
  case False
  from assms False obtain k where "keyToDBKey E c s key = Inr k"
    by (cases "keyToDBKey E c s key") (auto simp: has_def)
  moreover have "keyToDBKey E c (initRefs E c s key cd) key = keyToDBKey E c s key"
    using False by (intro keyToDBKey_not_remotable) simp_all
  ultimately show ?thesis by simp
qed

text \<open>
  The failures of \<^verbatim>\<open>init\<close>: the two assertions (and a key that cannot be encoded) come
  before the first mutation; a value that \<^verbatim>\<open>serialize\<close> refuses comes after the generation
  bump, the ordinal and the reference to the key.
\<close>

lemma init_failure_cases:
  assumes "init E c s key val = (Inl e, c', s')"
  shows "(c' = c \<and> s' = s \<and> (\<not> matches E key (keySchema c) \<or> has E c s key \<noteq> Inr False)) \<or>
         (matches E key (keySchema c) \<and> has E c s key = Inr False \<and> serialize E val = Inl e \<and>
          c' = c\<lparr>currentGenerationNumber := currentGenerationNumber c + 1\<rparr> \<and>
          s' = initOrdinal E c s key)"
proof (cases "matches E key (keySchema c)")
  case False
  with assms show ?thesis by (simp add: init_def)
next
  case True
  show ?thesis
  proof (cases "has E c s key = Inr False")
    case False
    with assms True show ?thesis
      by (cases "has E c s key") (auto simp: init_def split: bool.splits)
  next
    case absent: True
    show ?thesis
    proof (cases "serialize E val")
      case (Inl e')
      with assms init_absent_refused [OF True absent Inl] True absent show ?thesis
        by simp
    next
      case (Inr cd)
      from keyToDBKey_initRefs [OF True absent, of cd] obtain k
        where "keyToDBKey E c (initRefs E c s key cd) key = Inr k" ..
      with assms init_absent_unfold [OF True absent Inr] show ?thesis
        by simp
    qed
  qed
qed

lemma init_fails_on_cause:
  "\<not> matches E key (keySchema c) \<Longrightarrow> init E c s key val = (Inl SchemaViolation, c, s)"
  "matches E key (keySchema c) \<Longrightarrow> has E c s key = Inr True \<Longrightarrow>
     init E c s key val = (Inl AlreadyPresent, c, s)"
  by (simp_all add: init_def)




section \<open>Schema violations\<close>

text \<open>
  C7. For a key that fails the key schema of the collection, \<^verbatim>\<open>has\<close> returns false and
  raises nothing, while \<^verbatim>\<open>get\<close>, \<^verbatim>\<open>init\<close>, \<^verbatim>\<open>set\<close> and \<^verbatim>\<open>delete\<close> each fail with a
  schema violation.
\<close>

theorem schema_violation_outcomes:
  assumes "\<not> matches E key (keySchema c)"
  shows "has E c s key = Inr False \<and>
         get E c s key = Inl SchemaViolation \<and>
         fst (init E c s key val) = Inl SchemaViolation \<and>
         fst (set_c E c s key val) = Inl SchemaViolation \<and>
         fst (del E c s key) = Inl SchemaViolation"
  using assms by (simp add: has_def get_def init_def set_c_def del_def deleteInternal_def)

theorem schema_violation_outcomes_witness:
  "\<not> matches exampleEnv PNull (keySchema (exampleCollection False (PTagged ''match:string'' PNull))) \<and>
   has exampleEnv (exampleCollection False (PTagged ''match:string'' PNull)) emptySys PNull = Inr False \<and>
   get exampleEnv (exampleCollection False (PTagged ''match:string'' PNull)) emptySys PNull
     = Inl SchemaViolation \<and>
   fst (init exampleEnv (exampleCollection False (PTagged ''match:string'' PNull)) emptySys PNull PNull)
     = Inl SchemaViolation \<and>
   fst (set_c exampleEnv (exampleCollection False (PTagged ''match:string'' PNull)) emptySys PNull PNull)
     = Inl SchemaViolation \<and>
   fst (del exampleEnv (exampleCollection False (PTagged ''match:string'' PNull)) emptySys PNull)
     = Inl SchemaViolation"
proof -
  have h: "\<not> matches exampleEnv PNull
      (keySchema (exampleCollection False (PTagged ''match:string'' PNull)))"
    by (simp add: exampleEnv_def exampleMatches_def exampleCollection_def)
  from schema_violation_outcomes [OF h, of emptySys PNull] h show ?thesis
    by simp
qed

section \<open>The generation guard\<close>

text \<open>
  A generator returned by \<^verbatim>\<open>keys\<close>, \<^verbatim>\<open>values\<close> or \<^verbatim>\<open>entries\<close> is open at generation
  \<open>n\<close> when it is suspended at a \<^verbatim>\<open>yield\<close> of a scan whose \<^verbatim>\<open>generationAtStart\<close> is \<open>n\<close>.
\<close>

definition openAt :: "generator \<Rightarrow> nat \<Rightarrow> bool" where
  "openAt g n = (case state g of Running it \<Rightarrow> gen it = Suspended n | _ \<Rightarrow> False)"

definition throwsConcurrentModification :: "env \<Rightarrow> collection \<Rightarrow> sys \<Rightarrow> generator \<Rightarrow> bool" where
  "throwsConcurrentModification E c s g =
     (fst (keys_next E c s g) = Inl ConcurrentModification \<and>
      fst (values_next E c s g) = Inl ConcurrentModification \<and>
      fst (entries_next E c s g) = Inl ConcurrentModification)"

lemma iter_next_stale:
  assumes "gen it = Suspended n" "n \<noteq> currentGenerationNumber c"
  shows "fst (iter_next E c s it) = Inl ConcurrentModification"
  using assms by (simp add: iter_next_def iter_loop.simps)

lemma outer_next_stale:
  assumes "openAt g n" "n \<noteq> currentGenerationNumber c"
  shows "fst (outer_next E c s g) = Inl ConcurrentModification"
proof -
  from assms(1) obtain it where run: "state g = Running it" and sus: "gen it = Suspended n"
    by (cases "state g") (simp_all add: openAt_def)
  from iter_next_stale [OF sus assms(2), of E s] obtain it'
    where "iter_next E c s it = (Inl ConcurrentModification, it')"
    by (cases "iter_next E c s it") simp
  with run show ?thesis
    by (simp add: outer_next_def outer_step_def)
qed

lemma stale_generator_throws:
  assumes "openAt g n" "n \<noteq> currentGenerationNumber c"
  shows "throwsConcurrentModification E c s g"
  using outer_next_stale [OF assms, of E s]
  by (cases "outer_next E c s g")
     (simp add: throwsConcurrentModification_def keys_next_def values_next_def entries_next_def)

lemma yielded_generator_open:
  assumes "outer_next E c s g = (Inr (Some e), g')"
  shows "openAt g' (currentGenerationNumber c)"
proof -
  from outer_next_yield [OF assms] obtain it' where "g' = g\<lparr>state := Running it'\<rparr>"
    and "gen it' = Suspended (currentGenerationNumber c)"
    by blast
  then show ?thesis by (simp add: openAt_def)
qed

text \<open>
  C10. The public \<^verbatim>\<open>delete\<close> bumps the generation counter before it validates its
  argument: a call that fails leaves the vat store, the size counter and the reference
  counts as they were, but the generation counter is one higher, so every generator that
  was open throws at its next step.
\<close>

theorem delete_failure_bumps_generation:
  assumes "del E c s key = (Inl e, c', s')"
  shows "c' = c\<lparr>currentGenerationNumber := currentGenerationNumber c + 1\<rparr> \<and> s' = s \<and>
         (\<forall>g. openAt g (currentGenerationNumber c) \<longrightarrow> throwsConcurrentModification E c' s' g)"
proof -
  from assms have cs: "c' = c\<lparr>currentGenerationNumber := currentGenerationNumber c + 1\<rparr> \<and> s' = s"
    by (auto simp: del_def deleteInternal_def Let_def
        split: if_splits sum.splits option.splits)
  then have "currentGenerationNumber c \<noteq> currentGenerationNumber c'"
    by simp
  with cs stale_generator_throws show ?thesis
    by blast
qed


theorem delete_failure_bumps_generation_witness:
  "fst (del exampleEnv (exampleCollection False (PTagged ''match:any'' PNull)) emptySys (PString ''a''))
     = Inl NotFound \<and>
   snd (del exampleEnv (exampleCollection False (PTagged ''match:any'' PNull)) emptySys (PString ''a''))
     = ((exampleCollection False (PTagged ''match:any'' PNull))\<lparr>currentGenerationNumber := 1\<rparr>,
        emptySys) \<and>
   openAt (exampleGenerator 0) 0 \<and>
   throwsConcurrentModification exampleEnv
     ((exampleCollection False (PTagged ''match:any'' PNull))\<lparr>currentGenerationNumber := 1\<rparr>)
     emptySys (exampleGenerator 0)"
proof -
  let ?c = "exampleCollection False (PTagged ''match:any'' PNull)"
  let ?r = "del exampleEnv ?c emptySys (PString ''a'')"
  have h: "fst ?r = Inl NotFound"
    by (simp add: del_def deleteInternal_def exampleEnv_def exampleMatches_def
        exampleCollection_def keyToDBKey_def encodeKey_def vatstoreGet_def emptySys_def)
  then have eq: "?r = (Inl NotFound, fst (snd ?r), snd (snd ?r))"
    by (simp add: prod_eq_iff)
  have op: "openAt (exampleGenerator 0) 0"
    by (simp add: openAt_def exampleGenerator_def)
  have g0: "currentGenerationNumber ?c = 0"
    by (simp add: exampleCollection_def)
  from delete_failure_bumps_generation [OF eq]
  have r1: "fst (snd ?r) = ?c\<lparr>currentGenerationNumber := currentGenerationNumber ?c + 1\<rparr>"
    and r2: "snd (snd ?r) = emptySys"
    and r3: "\<forall>g. openAt g (currentGenerationNumber ?c) \<longrightarrow>
                throwsConcurrentModification exampleEnv (fst (snd ?r)) (snd (snd ?r)) g"
    by blast+
  from r3 op g0 have "throwsConcurrentModification exampleEnv (fst (snd ?r)) (snd (snd ?r))
                        (exampleGenerator 0)"
    by simp
  with r1 r2 h op g0 show ?thesis
    by (simp add: prod_eq_iff)
qed

lemma iter_loop_scan_induct:
  assumes step: "\<And>it. (\<And>x y. vatstoreGetAfter s (priorDBKey it) (startKey it) (endKey it) = Some (x, y)
                     \<Longrightarrow> P (it\<lparr>priorDBKey := x\<rparr>)) \<Longrightarrow> P it"
  shows "P it"
proof (induction it rule: measure_induct_rule [where f = "\<lambda>it. card {k \<in> fst ` set (vatstore s). priorDBKey it < k}"])
  case (less it)
  show ?case
  proof (rule step)
    fix x y
    assume "vatstoreGetAfter s (priorDBKey it) (startKey it) (endKey it) = Some (x, y)"
    from vatstoreGetAfter_measure [OF this] show "P (it\<lparr>priorDBKey := x\<rparr>)"
      by (intro less.IH) simp
  qed
qed

lemma map_sum_id_Inl [simp]: "map_sum id f x = Inl e \<longleftrightarrow> x = Inl e"
  by (cases x) auto

lemma dbEntryKeyToNumber_error: "dbEntryKeyToNumber k = Inl e \<Longrightarrow> e = SyntaxError"
  by (auto simp: dbEntryKeyToNumber_def Let_def split: option.splits)

lemma dbEntryKeyToBigint_error: "dbEntryKeyToBigint k = Inl e \<Longrightarrow> e = SyntaxError"
  by (auto simp: dbEntryKeyToBigint_def Let_def split: option.splits if_splits)

lemma dbKeyToKey_error: "dbKeyToKey c k = Inl e \<Longrightarrow> e = SyntaxError \<or> e = DecodeCorruption"
  by (auto simp: dbKeyToKey_def Let_def split: list.splits if_splits
      dest!: dbEntryKeyToNumber_error dbEntryKeyToBigint_error)

lemma parseCapData_error: "parseCapData r = Inl e \<Longrightarrow> e = SyntaxError \<or> e = TypeError"
  by (cases r rule: parseCapData.cases) auto

lemma iter_loop_current:
  "fst (iter_loop E c s (currentGenerationNumber c) it) \<noteq> Inl ConcurrentModification"
proof (induction it rule: iter_loop_scan_induct [where s = s])
  case (1 it)
  show ?case
  proof (cases "vatstoreGetAfter s (priorDBKey it) (startKey it) (endKey it)")
    case None
    then show ?thesis by (subst iter_loop.simps) simp
  next
    case (Some xy)
    obtain x y where xy: "xy = (x, y)" by (cases xy)
    from Some xy vatstoreGetAfter_Some [of s "priorDBKey it" "startKey it" "endKey it" x y]
    have xe: "x < endKey it" by simp
    from Some xy have IH: "fst (iter_loop E c s (currentGenerationNumber c) (it\<lparr>priorDBKey := x\<rparr>))
        \<noteq> Inl ConcurrentModification"
      by (intro 1) simp
    show ?thesis
      using Some xy xe IH
      by (subst iter_loop.simps)
         (auto simp: Let_def split: sum.splits dest: dbKeyToKey_error parseCapData_error)
  qed
qed

lemma outer_next_current:
  assumes "openAt g (currentGenerationNumber c)"
  shows "fst (outer_next E c s g) \<noteq> Inl ConcurrentModification"
proof -
  from assms obtain it where run: "state g = Running it"
    and sus: "gen it = Suspended (currentGenerationNumber c)"
    by (cases "state g") (simp_all add: openAt_def)
  from sus iter_loop_current [of E c s it]
  have "fst (iter_next E c s it) \<noteq> Inl ConcurrentModification"
    by (simp add: iter_next_def)
  with run show ?thesis
    by (cases "iter_next E c s it")
       (auto simp: outer_next_def outer_step_def split: sum.splits option.splits)
qed

lemma init_generation:
  assumes "init E c s key val = (Inr u, c', s')"
  shows "currentGenerationNumber c' = currentGenerationNumber c + 1"
  using assms
  by (auto simp: init_def Let_def split: if_splits sum.splits bool.splits)

lemma deleteInternal_handle:
  assumes "deleteInternal E c s key = (r, c', s')"
  shows "c' = c \<or> c' = c\<lparr>size_c := size_c c - 1\<rparr>"
  using assms
  by (auto simp: deleteInternal_def Let_def split: if_splits sum.splits option.splits)

lemma del_generation:
  assumes "del E c s key = (r, c', s')"
  shows "currentGenerationNumber c' = currentGenerationNumber c + 1"
  using deleteInternal_handle [OF assms [unfolded del_def]] by auto

lemma clear_loop_generation:
  "clear_loop E c s g = (r, c', s') \<Longrightarrow> currentGenerationNumber c' = currentGenerationNumber c"
proof (induction E c s g rule: clear_loop.induct)
  case (1 E c s g)
  show ?case
  proof (cases "keys_next E c s g")
    case (Pair res g1)
    show ?thesis
    proof (cases res)
      case (Inl e)
      with Pair "1.prems" show ?thesis by (subst (asm) clear_loop.simps) simp
    next
      case (Inr ko)
      show ?thesis
      proof (cases ko)
        case None
        with Pair Inr "1.prems" show ?thesis by (subst (asm) clear_loop.simps) simp
      next
        case (Some k)
        obtain r1 c1 s1 where di: "deleteInternal E c s k = (r1, c1, s1)"
          by (cases "deleteInternal E c s k")
        from deleteInternal_handle [OF di]
        have g1: "currentGenerationNumber c1 = currentGenerationNumber c" by auto
        show ?thesis
        proof (cases r1)
          case (Inl e)
          with Pair Inr Some di "1.prems" g1 show ?thesis
            by (subst (asm) clear_loop.simps) simp
        next
          case (Inr u)
          with Pair \<open>res = Inr ko\<close> Some di "1.prems"
          have "clear_loop E c1 s1 g1 = (r, c', s')"
            by (subst (asm) clear_loop.simps) simp
          from "1.IH" [OF Pair [symmetric] \<open>res = Inr ko\<close> Some di [symmetric] Inr refl this] g1
          show ?thesis by simp
        qed
      qed
    qed
  qed
qed

lemma clear_generation:
  assumes "clear E c s kp vp = (Inr u, c', s')"
  shows "currentGenerationNumber c' = currentGenerationNumber c + 1"
proof -
  obtain r1 c1 s1 where cl: "clear_loop E c s (keys kp vp) = (r1, c1, s1)"
    by (cases "clear_loop E c s (keys kp vp)")
  from clear_loop_generation [OF cl] assms cl show ?thesis
    by (cases r1) (auto simp: clear_def)
qed

lemma set_c_handle:
  assumes "set_c E c s key val = (r, c', s')"
  shows "c' = c"
  using assms
  by (auto simp: set_c_def Let_def split: if_splits sum.splits option.splits)

lemma init_mutation_bumps_generation:
  assumes "init E c s key val = (r, c', s')" "c' \<noteq> c \<or> s' \<noteq> s"
  shows "currentGenerationNumber c' = currentGenerationNumber c + 1"
proof (cases r)
  case (Inl e)
  from init_failure_cases [OF assms(1) [unfolded Inl]] assms(2) show ?thesis
    by auto
next
  case (Inr u)
  with assms(1) show ?thesis
    by (intro init_generation) simp
qed

text \<open>
  Where the guard works. Between two \<^verbatim>\<open>next\<close> invocations of an open generator (the first
  one yielded an entry), an \<^verbatim>\<open>init\<close> or a \<^verbatim>\<open>clear\<close> that returns, or any call of
  \<^verbatim>\<open>delete\<close>, makes the following \<^verbatim>\<open>next\<close> of \<^verbatim>\<open>keys\<close>, \<^verbatim>\<open>values\<close> and \<^verbatim>\<open>entries\<close>
  throw the failed generation assertion. A \<^verbatim>\<open>set\<close> leaves the generation counter as it is
  and the following \<^verbatim>\<open>next\<close> does not throw it. Every generator is stepped by
  \<open>outer_next\<close>; \<open>keys_next\<close>, \<open>values_next\<close> and \<open>entries_next\<close> project the entry it
  yields.
\<close>

lemma generation_guard_completed:
  assumes "outer_next E c s g = (Inr (Some entry), g')"
  shows "(init E c s key val = (Inr (), ci, si) \<longrightarrow> throwsConcurrentModification E ci si g') \<and>
         (del E c s key = (rd, cd, sd) \<longrightarrow> throwsConcurrentModification E cd sd g') \<and>
         (clear E c s kp vp = (Inr (), cc, sc) \<longrightarrow> throwsConcurrentModification E cc sc g') \<and>
         (set_c E c s key val = (rs, cs, ss) \<longrightarrow>
            currentGenerationNumber cs = currentGenerationNumber c \<and>
            fst (keys_next E cs ss g') \<noteq> Inl ConcurrentModification \<and>
            fst (values_next E cs ss g') \<noteq> Inl ConcurrentModification \<and>
            fst (entries_next E cs ss g') \<noteq> Inl ConcurrentModification)"
proof -
  note op = yielded_generator_open [OF assms]
  have a: "throwsConcurrentModification E ci si g'" if "init E c s key val = (Inr (), ci, si)"
    using init_generation [OF that] by (intro stale_generator_throws [OF op]) simp
  have b: "throwsConcurrentModification E cd sd g'" if "del E c s key = (rd, cd, sd)"
    using del_generation [OF that] by (intro stale_generator_throws [OF op]) simp
  have c: "throwsConcurrentModification E cc sc g'" if "clear E c s kp vp = (Inr (), cc, sc)"
    using clear_generation [OF that] by (intro stale_generator_throws [OF op]) simp
  have d: "currentGenerationNumber cs = currentGenerationNumber c \<and>
            fst (keys_next E cs ss g') \<noteq> Inl ConcurrentModification \<and>
            fst (values_next E cs ss g') \<noteq> Inl ConcurrentModification \<and>
            fst (entries_next E cs ss g') \<noteq> Inl ConcurrentModification"
    if "set_c E c s key val = (rs, cs, ss)"
  proof -
    from set_c_handle [OF that] have cs: "cs = c" .
    from outer_next_current [OF op, of E ss] cs show ?thesis
      by (cases "outer_next E c ss g'")
         (simp add: keys_next_def values_next_def entries_next_def)
  qed
  from a b c d show ?thesis by blast
qed


lemma example_first_yield:
  "outer_next exampleEnv (exampleCollection False (PTagged ''match:any'' PNull)) exampleSys
     (keys PUndefined PUndefined)
   = (Inr (Some (PString ''a'', PUndefined)), exampleGenerator 0)"
  by (simp add: outer_next_def keys_def entriesInternal_def exampleEnv_def pattEq_def
      outer_step_def iter_next_def iter_loop.simps vatstoreGetAfter_def exampleSys_def
      emptySys_def exampleCollection_def prefix_def less_char_def less_eq_char_def
      dbKeyToKey_def exampleMatches_def exampleGenerator_def)


lemma example_init:
  "fst (init exampleEnv (exampleCollection False (PTagged ''match:any'' PNull)) exampleSys
          (PString ''b'') (PString ''w'')) = Inr ()"
  by (simp add: init_def has_def keyToDBKey_def encodeKey_def exampleEnv_def exampleMatches_def
      exampleCollection_def exampleSys_def emptySys_def vatstoreGet_def prefix_def Let_def)

lemma example_deleteInternal:
  "deleteInternal exampleEnv (exampleCollection False (PTagged ''match:any'' PNull)) exampleSys
     (PString ''a'')
   = (Inr (), (exampleCollection False (PTagged ''match:any'' PNull))\<lparr>size_c := - 1\<rparr>, emptySys)"
  by (simp add: deleteInternal_def keyToDBKey_def encodeKey_def exampleEnv_def exampleMatches_def
      exampleCollection_def exampleSys_def emptySys_def vatstoreGet_def vatstoreDelete_def
      prefix_def Let_def)

lemma example_second_next:
  "outer_next exampleEnv ((exampleCollection False (PTagged ''match:any'' PNull))\<lparr>size_c := - 1\<rparr>)
     emptySys (exampleGenerator 0)
   = (Inr None, (exampleGenerator 0)\<lparr>state := Closed\<rparr>)"
  by (simp add: outer_next_def outer_step_def iter_next_def iter_loop.simps vatstoreGetAfter_def
      emptySys_def exampleCollection_def exampleGenerator_def)

lemma example_clear:
  "fst (clear exampleEnv (exampleCollection False (PTagged ''match:any'' PNull)) exampleSys
          PUndefined PUndefined) = Inr ()"
  apply (simp add: clear_def)
  apply (subst clear_loop.simps)
  apply (simp add: keys_next_def example_first_yield example_deleteInternal)
  apply (subst clear_loop.simps)
  apply (simp add: keys_next_def example_second_next)
  done

lemma generation_guard_completed_example:
  "outer_next exampleEnv (exampleCollection False (PTagged ''match:any'' PNull)) exampleSys
     (keys PUndefined PUndefined)
     = (Inr (Some (PString ''a'', PUndefined)), exampleGenerator 0) \<and>
   fst (init exampleEnv (exampleCollection False (PTagged ''match:any'' PNull)) exampleSys
          (PString ''b'') (PString ''w'')) = Inr () \<and>
   throwsConcurrentModification exampleEnv
     (fst (snd (init exampleEnv (exampleCollection False (PTagged ''match:any'' PNull)) exampleSys
                  (PString ''b'') (PString ''w''))))
     (snd (snd (init exampleEnv (exampleCollection False (PTagged ''match:any'' PNull)) exampleSys
                  (PString ''b'') (PString ''w''))))
     (exampleGenerator 0) \<and>
   throwsConcurrentModification exampleEnv
     (fst (snd (del exampleEnv (exampleCollection False (PTagged ''match:any'' PNull)) exampleSys
                  (PString ''a''))))
     (snd (snd (del exampleEnv (exampleCollection False (PTagged ''match:any'' PNull)) exampleSys
                  (PString ''a''))))
     (exampleGenerator 0) \<and>
   fst (clear exampleEnv (exampleCollection False (PTagged ''match:any'' PNull)) exampleSys
          PUndefined PUndefined) = Inr () \<and>
   throwsConcurrentModification exampleEnv
     (fst (snd (clear exampleEnv (exampleCollection False (PTagged ''match:any'' PNull)) exampleSys
                  PUndefined PUndefined)))
     (snd (snd (clear exampleEnv (exampleCollection False (PTagged ''match:any'' PNull)) exampleSys
                  PUndefined PUndefined)))
     (exampleGenerator 0) \<and>
   currentGenerationNumber
     (fst (snd (set_c exampleEnv (exampleCollection False (PTagged ''match:any'' PNull)) exampleSys
                  (PString ''a'') (PString ''w'')))) = 0 \<and>
   fst (keys_next exampleEnv
     (fst (snd (set_c exampleEnv (exampleCollection False (PTagged ''match:any'' PNull)) exampleSys
                  (PString ''a'') (PString ''w''))))
     (snd (snd (set_c exampleEnv (exampleCollection False (PTagged ''match:any'' PNull)) exampleSys
                  (PString ''a'') (PString ''w''))))
     (exampleGenerator 0)) \<noteq> Inl ConcurrentModification"
proof -
  let ?c = "exampleCollection False (PTagged ''match:any'' PNull)"
  let ?ri = "init exampleEnv ?c exampleSys (PString ''b'') (PString ''w'')"
  let ?rd = "del exampleEnv ?c exampleSys (PString ''a'')"
  let ?rc = "clear exampleEnv ?c exampleSys PUndefined PUndefined"
  let ?rs = "set_c exampleEnv ?c exampleSys (PString ''a'') (PString ''w'')"
  note y = example_first_yield
  have gc: "currentGenerationNumber ?c = 0"
    by (simp add: exampleCollection_def)
  have i: "?ri = (Inr (), fst (snd ?ri), snd (snd ?ri))"
    using example_init by (simp add: prod_eq_iff)
  have d: "?rd = (fst ?rd, fst (snd ?rd), snd (snd ?rd))"
    by simp
  have c: "?rc = (Inr (), fst (snd ?rc), snd (snd ?rc))"
    using example_clear by (simp add: prod_eq_iff)
  have s: "?rs = (fst ?rs, fst (snd ?rs), snd (snd ?rs))"
    by simp
  from generation_guard_completed [OF y, where key = "PString ''b''" and val = "PString ''w''"
      and ci = "fst (snd ?ri)" and si = "snd (snd ?ri)"] i
  have a1: "throwsConcurrentModification exampleEnv (fst (snd ?ri)) (snd (snd ?ri)) (exampleGenerator 0)"
    by blast
  from generation_guard_completed [OF y, where key = "PString ''a''" and val = "PString ''w''"
      and rd = "fst ?rd" and cd = "fst (snd ?rd)" and sd = "snd (snd ?rd)"
      and kp = PUndefined and vp = PUndefined
      and cc = "fst (snd ?rc)" and sc = "snd (snd ?rc)"
      and rs = "fst ?rs" and cs = "fst (snd ?rs)" and ss = "snd (snd ?rs)"] d c s
  have a2: "throwsConcurrentModification exampleEnv (fst (snd ?rd)) (snd (snd ?rd)) (exampleGenerator 0)"
    and a3: "throwsConcurrentModification exampleEnv (fst (snd ?rc)) (snd (snd ?rc)) (exampleGenerator 0)"
    and a4: "currentGenerationNumber (fst (snd ?rs)) = currentGenerationNumber ?c"
    and a5: "fst (keys_next exampleEnv (fst (snd ?rs)) (snd (snd ?rs)) (exampleGenerator 0))
               \<noteq> Inl ConcurrentModification"
    by blast+
  from y example_init a1 a2 example_clear a3 a4 a5 gc show ?thesis
    by simp
qed

subsection \<open>A \<^verbatim>\<open>clear\<close> that throws midway\<close>

text \<open>
  \<^verbatim>\<open>init\<close> and \<^verbatim>\<open>delete\<close> increment the generation counter before their first mutation;
  \<^verbatim>\<open>clear\<close> increments it after its loop. Collection 1 below holds the keys \<open>true\<close> and
  \<open>-1\<close>, put there by two calls of \<^verbatim>\<open>init\<close>.
\<close>

definition twoKeySys :: sys where
  "twoKeySys =
     emptySys\<lparr>vatstore :=
       [(''vc.1.|nextOrdinal'', Raw ''1''),
        (''vc.1.btrue'', Json (JCap \<lparr>body = ''sv'', slots = []\<rparr>)),
        (''vc.1.f400fffffffffffff'', Json (JCap \<lparr>body = ''sv'', slots = []\<rparr>))]\<rparr>"

definition twoKeyCollection :: collection where
  "twoKeyCollection =
     (exampleCollection False (PTagged ''match:any'' PNull))
       \<lparr>currentGenerationNumber := 2, size_c := 2\<rparr>"

text \<open>The generator of \<^verbatim>\<open>keys()\<close> on it, suspended after it has yielded \<open>true\<close>.\<close>

definition twoKeyGenerator :: generator where
  "twoKeyGenerator =
     \<lparr>needValue = False, keyPattArg = PUndefined, valuePattArg = PUndefined,
      state = Running
        \<lparr>priorDBKey = ''vc.1.btrue'', startKey = ''vc.1.'', endKey = ''vc.1.{'',
         keyPatt = PTagged ''match:any'' PNull, valuePatt = PTagged ''match:any'' PNull,
         ignoreValues = True, gen = Suspended 2\<rparr>\<rparr>"

text \<open>The system once the entry of \<open>true\<close> is deleted.\<close>

definition abortedSys :: sys where
  "abortedSys =
     emptySys\<lparr>vatstore :=
       [(''vc.1.|nextOrdinal'', Raw ''1''),
        (''vc.1.f400fffffffffffff'', Json (JCap \<lparr>body = ''sv'', slots = []\<rparr>))]\<rparr>"

lemma minus_one_key [simp]: "numberToDBEntryKey 0xbff0000000000000 = ''f400fffffffffffff''"
  by (simp add: numberToDBEntryKey_def ltZero_def zeroPad_def digitChar_def)

lemma two_keys_first_init:
  "init exampleEnv (exampleCollection False (PTagged ''match:any'' PNull)) freshSys
     (PBoolean True) (PString ''v'')
   = (Inr (),
      (exampleCollection False (PTagged ''match:any'' PNull))
        \<lparr>currentGenerationNumber := 1, size_c := 1\<rparr>,
      emptySys\<lparr>vatstore :=
        [(''vc.1.|nextOrdinal'', Raw ''1''),
         (''vc.1.btrue'', Json (JCap \<lparr>body = ''sv'', slots = []\<rparr>))]\<rparr>)"
  by (simp add: init_def has_def keyToDBKey_def encodeKey_def exampleEnv_def exampleMatches_def
      exampleCollection_def freshSys_def emptySys_def vatstoreGet_def vatstoreSet_def
      prefix_def Let_def)

lemma two_keys_second_init:
  "init exampleEnv
     ((exampleCollection False (PTagged ''match:any'' PNull))
        \<lparr>currentGenerationNumber := 1, size_c := 1\<rparr>)
     (emptySys\<lparr>vatstore :=
        [(''vc.1.|nextOrdinal'', Raw ''1''),
         (''vc.1.btrue'', Json (JCap \<lparr>body = ''sv'', slots = []\<rparr>))]\<rparr>)
     (PNumber 0xbff0000000000000) (PString ''v'')
   = (Inr (), twoKeyCollection, twoKeySys)"
  by (simp add: init_def has_def keyToDBKey_def encodeKey_def exampleEnv_def exampleMatches_def
      exampleCollection_def emptySys_def vatstoreGet_def vatstoreSet_def
      prefix_def Let_def twoKeyCollection_def twoKeySys_def)

lemma two_keys_first_next:
  "outer_next exampleEnv twoKeyCollection twoKeySys (keys PUndefined PUndefined)
   = (Inr (Some (PBoolean True, PUndefined)), twoKeyGenerator)"
  by (simp add: outer_next_def keys_def entriesInternal_def exampleEnv_def pattEq_def
      outer_step_def iter_next_def iter_loop.simps vatstoreGetAfter_def twoKeySys_def
      emptySys_def exampleCollection_def prefix_def less_char_def less_eq_char_def
      dbKeyToKey_def exampleMatches_def twoKeyGenerator_def twoKeyCollection_def)

lemma two_keys_delete_true:
  "deleteInternal exampleEnv twoKeyCollection twoKeySys (PBoolean True)
   = (Inr (), twoKeyCollection\<lparr>size_c := 1\<rparr>, abortedSys)"
  by (simp add: deleteInternal_def keyToDBKey_def encodeKey_def exampleEnv_def exampleMatches_def
      exampleCollection_def twoKeySys_def emptySys_def vatstoreGet_def vatstoreDelete_def
      prefix_def Let_def twoKeyCollection_def abortedSys_def)

lemma two_keys_second_next:
  "outer_next exampleEnv (twoKeyCollection\<lparr>size_c := 1\<rparr>) abortedSys twoKeyGenerator
   = (Inr (Some (PNumber 0xc00fffffffffffff, PUndefined)),
      twoKeyGenerator\<lparr>state := Running
        \<lparr>priorDBKey = ''vc.1.f400fffffffffffff'', startKey = ''vc.1.'', endKey = ''vc.1.{'',
         keyPatt = PTagged ''match:any'' PNull, valuePatt = PTagged ''match:any'' PNull,
         ignoreValues = True, gen = Suspended 2\<rparr>\<rparr>)"
  by (simp add: outer_next_def exampleEnv_def
      outer_step_def iter_next_def iter_loop.simps vatstoreGetAfter_def abortedSys_def
      emptySys_def exampleCollection_def prefix_def less_char_def less_eq_char_def
      dbKeyToKey_def exampleMatches_def twoKeyGenerator_def twoKeyCollection_def
      dbEntryKeyToNumber_def BigInt_hex_def digitVal_def firstCharLess_def)

lemma two_keys_delete_decoded:
  "deleteInternal exampleEnv (twoKeyCollection\<lparr>size_c := 1\<rparr>) abortedSys
     (PNumber 0xc00fffffffffffff)
   = (Inl NotFound, twoKeyCollection\<lparr>size_c := 1\<rparr>, abortedSys)"
  by (simp add: deleteInternal_def keyToDBKey_def encodeKey_def exampleEnv_def exampleMatches_def
      exampleCollection_def abortedSys_def emptySys_def vatstoreGet_def
      prefix_def Let_def twoKeyCollection_def
      numberToDBEntryKey_def ltZero_def zeroPad_def digitChar_def)

lemma two_keys_clear:
  "clear exampleEnv twoKeyCollection twoKeySys PUndefined PUndefined
   = (Inl NotFound, twoKeyCollection\<lparr>size_c := 1\<rparr>, abortedSys)"
  apply (simp add: clear_def)
  apply (subst clear_loop.simps)
  apply (simp add: keys_next_def two_keys_first_next two_keys_delete_true)
  apply (subst clear_loop.simps)
  apply (simp add: keys_next_def two_keys_second_next two_keys_delete_decoded)
  done

text \<open>
  C6. The guard does not hold for a \<^verbatim>\<open>clear\<close> that throws after it has deleted an entry.
  On the collection that two calls of \<^verbatim>\<open>init\<close> have filled with the keys \<open>true\<close> and
  \<open>-1\<close>, the first \<^verbatim>\<open>next\<close> of \<^verbatim>\<open>keys()\<close> yields \<open>true\<close>. Then \<^verbatim>\<open>clear()\<close> deletes the
  entry of \<open>true\<close> and throws at the entry of \<open>-1\<close>, whose key it decodes as another number
  and does not find. The row of \<open>true\<close> is gone and the size counter is 1, but the
  generation counter is still 2, and the second \<^verbatim>\<open>next\<close> of the open generator yields a key
  instead of failing with the concurrent modification.
\<close>

theorem clear_abort_skips_generation_guard:
  "init exampleEnv (exampleCollection False (PTagged ''match:any'' PNull)) freshSys
     (PBoolean True) (PString ''v'')
   = (Inr (),
      (exampleCollection False (PTagged ''match:any'' PNull))
        \<lparr>currentGenerationNumber := 1, size_c := 1\<rparr>,
      emptySys\<lparr>vatstore :=
        [(''vc.1.|nextOrdinal'', Raw ''1''),
         (''vc.1.btrue'', Json (JCap \<lparr>body = ''sv'', slots = []\<rparr>))]\<rparr>) \<and>
   init exampleEnv
     ((exampleCollection False (PTagged ''match:any'' PNull))
        \<lparr>currentGenerationNumber := 1, size_c := 1\<rparr>)
     (emptySys\<lparr>vatstore :=
        [(''vc.1.|nextOrdinal'', Raw ''1''),
         (''vc.1.btrue'', Json (JCap \<lparr>body = ''sv'', slots = []\<rparr>))]\<rparr>)
     (PNumber 0xbff0000000000000) (PString ''v'')
   = (Inr (), twoKeyCollection, twoKeySys) \<and>
   keys_next exampleEnv twoKeyCollection twoKeySys (keys PUndefined PUndefined)
   = (Inr (Some (PBoolean True)), twoKeyGenerator) \<and>
   clear exampleEnv twoKeyCollection twoKeySys PUndefined PUndefined
   = (Inl NotFound, twoKeyCollection\<lparr>size_c := 1\<rparr>, abortedSys) \<and>
   vatstoreGet twoKeySys ''vc.1.btrue'' \<noteq> None \<and>
   vatstoreGet abortedSys ''vc.1.btrue'' = None \<and>
   currentGenerationNumber twoKeyCollection = 2 \<and>
   currentGenerationNumber (twoKeyCollection\<lparr>size_c := 1\<rparr>) = 2 \<and>
   fst (keys_next exampleEnv (twoKeyCollection\<lparr>size_c := 1\<rparr>) abortedSys twoKeyGenerator)
   = Inr (Some (PNumber 0xc00fffffffffffff)) \<and>
   \<not> throwsConcurrentModification exampleEnv (twoKeyCollection\<lparr>size_c := 1\<rparr>) abortedSys
       twoKeyGenerator"
proof -
  have "vatstoreGet twoKeySys ''vc.1.btrue'' \<noteq> None"
    and "vatstoreGet abortedSys ''vc.1.btrue'' = None"
    by (simp_all add: vatstoreGet_def twoKeySys_def abortedSys_def emptySys_def)
  moreover have "currentGenerationNumber twoKeyCollection = 2"
    and "currentGenerationNumber (twoKeyCollection\<lparr>size_c := 1\<rparr>) = 2"
    by (simp_all add: twoKeyCollection_def)
  moreover have "keys_next exampleEnv twoKeyCollection twoKeySys (keys PUndefined PUndefined)
      = (Inr (Some (PBoolean True)), twoKeyGenerator)"
    by (simp add: keys_next_def two_keys_first_next)
  moreover have n2: "fst (keys_next exampleEnv (twoKeyCollection\<lparr>size_c := 1\<rparr>) abortedSys
      twoKeyGenerator) = Inr (Some (PNumber 0xc00fffffffffffff))"
    by (simp add: keys_next_def two_keys_second_next)
  moreover from n2 have "\<not> throwsConcurrentModification exampleEnv
      (twoKeyCollection\<lparr>size_c := 1\<rparr>) abortedSys twoKeyGenerator"
    by (simp add: throwsConcurrentModification_def)
  ultimately show ?thesis
    using two_keys_first_init two_keys_second_init two_keys_clear by simp
qed

section \<open>The size counter\<close>

text \<open>
  A row of the vat store is an entry row of the collection when its key lies under the
  prefix of the collection and the rest of the key does not begin with \<open>|\<close>.
\<close>

definition isEntryRow :: "collection \<Rightarrow> string \<Rightarrow> bool" where
  "isEntryRow c k =
     (take (length (dbKeyPrefix c)) k = dbKeyPrefix c \<and>
      take 1 (drop (length (dbKeyPrefix c)) k) \<noteq> ''|'')"

definition entryCount :: "collection \<Rightarrow> sys \<Rightarrow> nat" where
  "entryCount c s = length (filter (isEntryRow c) (map fst (vatstore s)))"

text \<open>
  The row of a remotable key agrees with the ordinal row of its slot: the row is
  \<open>r<tag>:<slot>\<close>, the slot has an ordinal row, and the tag is that ordinal, padded. No
  remotable has the slot \<open>nextOrdinal\<close>, whose ordinal row would be the allocator's counter.
\<close>

definition remotableRowOK :: "env \<Rightarrow> collection \<Rightarrow> sys \<Rightarrow> string \<Rightarrow> bool" where
  "remotableRowOK E c s k =
     (let rest = drop (length (dbKeyPrefix c)) k;
          slot = drop (BIGINT_TAG_LEN + 2) rest
      in if take (length (dbKeyPrefix c)) k = dbKeyPrefix c \<and> take 1 rest = ''r'' then
           slot \<noteq> ''nextOrdinal'' \<and>
           (case vatstoreGet s (prefix c (''|'' @ slot)) of
              None \<Rightarrow> False
            | Some ordinal \<Rightarrow>
                take (BIGINT_TAG_LEN + 2) rest
                  = ''r'' @ zeroPad (rowText E ordinal) BIGINT_TAG_LEN @ '':'')
         else True)"

definition sizeInvariant :: "env \<Rightarrow> collection \<Rightarrow> sys \<Rightarrow> bool" where
  "sizeInvariant E c s =
     (distinct (map fst (vatstore s)) \<and>
      vatstoreGet s (prefix c ''|nextOrdinal'') \<noteq> None \<and>
      list_all (remotableRowOK E c s) (map fst (vatstore s)) \<and>
      size_c c = int (entryCount c s))"

lemma length_zeroPad [simp]: "sz \<le> 18 \<Longrightarrow> length (zeroPad x sz) = sz"
  by (simp add: zeroPad_def)

lemma length_zeroPad_tag [simp]: "length (zeroPad x BIGINT_TAG_LEN) = BIGINT_TAG_LEN"
  by (simp add: BIGINT_TAG_LEN_def)

lemma isEntryRow_prefix:
  "isEntryRow c (prefix c rest) \<longleftrightarrow> take 1 rest \<noteq> ''|''"
  by (simp add: isEntryRow_def prefix_def)

lemma encodeKey_tag:
  assumes "encodeKey E c s key = Inr enc"
  shows "take 1 enc \<noteq> ''|'' \<and> (take 1 enc = ''r'' \<longleftrightarrow> isRemotable key)"
  using assms
  by (cases key)
     (auto simp: encodeKey_def numberToDBEntryKey_def bigintToDBEntryKey_def Let_def
           split: option.splits if_splits)

lemma keyToDBKey_Inr:
  "keyToDBKey E c s key = Inr dbKey \<longleftrightarrow> (\<exists>enc. encodeKey E c s key = Inr enc \<and> dbKey = prefix c enc)"
  by (cases "encodeKey E c s key") (auto simp: keyToDBKey_def)

lemma vatstoreGet_None_iff: "vatstoreGet s k = None \<longleftrightarrow> k \<notin> set (map fst (vatstore s))"
  by (simp add: vatstoreGet_def map_of_eq_None_iff)

lemma length_filter_removeAll:
  "distinct xs \<Longrightarrow> x \<in> set xs \<Longrightarrow> P x \<Longrightarrow>
     length (filter P (removeAll x xs)) + 1 = length (filter P xs)"
  by (induction xs) auto

lemma filter_removeAll_other:
  "\<not> P x \<Longrightarrow> filter P (removeAll x xs) = filter P xs"
  by (induction xs) auto


lemma sizeInvariant_cong:
  assumes "vatstore s' = vatstore s" "dbKeyPrefix c' = dbKeyPrefix c" "size_c c' = size_c c"
  shows "sizeInvariant E c' s' = sizeInvariant E c s"
proof -
  have "remotableRowOK E c' s' = remotableRowOK E c s"
    using assms by (simp add: fun_eq_iff remotableRowOK_def vatstoreGet_def prefix_def)
  moreover have "isEntryRow c' = isEntryRow c"
    using assms by (simp add: fun_eq_iff isEntryRow_def)
  ultimately show ?thesis
    using assms by (simp add: sizeInvariant_def entryCount_def vatstoreGet_def prefix_def)
qed

lemma sizeInvariant_generation [simp]:
  "sizeInvariant E (c\<lparr>currentGenerationNumber := n\<rparr>) s = sizeInvariant E c s"
  by (rule sizeInvariant_cong) simp_all

text \<open>The key of the ordinal row that a remotable row refers to.\<close>

definition ordinalKeyOf :: "collection \<Rightarrow> string \<Rightarrow> string" where
  "ordinalKeyOf c k = prefix c (''|'' @ drop (BIGINT_TAG_LEN + 2) (drop (length (dbKeyPrefix c)) k))"

lemma remotableRowOK_frame:
  assumes "vatstoreGet s' (ordinalKeyOf c k) = vatstoreGet s (ordinalKeyOf c k)"
  shows "remotableRowOK E c s' k = remotableRowOK E c s k"
  using assms by (simp add: remotableRowOK_def ordinalKeyOf_def Let_def)

lemma remotableRowOK_size [simp]:
  "remotableRowOK E (c\<lparr>size_c := z\<rparr>) = remotableRowOK E c"
  by (simp add: fun_eq_iff remotableRowOK_def prefix_def)

lemma isEntryRow_size [simp]: "isEntryRow (c\<lparr>size_c := z\<rparr>) = isEntryRow c"
  by (simp add: fun_eq_iff isEntryRow_def)

lemma ordinalKeyOf_not_entry:
  "take 1 enc \<noteq> ''|'' \<Longrightarrow> ordinalKeyOf c k \<noteq> prefix c enc"
  by (auto simp: ordinalKeyOf_def)

lemma inv_add_row:
  assumes inv: "sizeInvariant E c s"
    and new: "vatstoreGet s (prefix c enc) = None"
    and tag: "take 1 enc \<noteq> ''|''"
    and ok: "remotableRowOK E c (vatstoreSet (prefix c enc) v s) (prefix c enc)"
  shows "sizeInvariant E (c\<lparr>size_c := size_c c + 1\<rparr>) (vatstoreSet (prefix c enc) v s)"
proof -
  let ?s' = "vatstoreSet (prefix c enc) v s"
  from new have notin: "prefix c enc \<notin> set (map fst (vatstore s))"
    by (simp add: vatstoreGet_None_iff)
  then have keys': "map fst (AList.update (prefix c enc) v (vatstore s))
      = map fst (vatstore s) @ [prefix c enc]"
    by (simp add: update_keys)
  from inv have d: "distinct (map fst (vatstore s))"
    and n: "vatstoreGet s (prefix c ''|nextOrdinal'') \<noteq> None"
    and r: "list_all (remotableRowOK E c s) (map fst (vatstore s))"
    and z: "size_c c = int (entryCount c s)"
    by (simp_all add: sizeInvariant_def)
  have d': "distinct (map fst (vatstore ?s'))"
    using d notin by (simp add: keys')
  have n': "vatstoreGet ?s' (prefix c ''|nextOrdinal'') \<noteq> None"
    using n by simp
  have "remotableRowOK E c ?s' k = remotableRowOK E c s k" for k
    using ordinalKeyOf_not_entry [OF tag, of c k] by (intro remotableRowOK_frame) simp
  with r ok have r': "list_all (remotableRowOK E c ?s') (map fst (vatstore ?s'))"
    by (simp add: keys' cong: list.pred_cong)
  have z': "size_c c + 1 = int (entryCount c ?s')"
    using z tag keys' by (simp add: entryCount_def isEntryRow_prefix)
  from d' n' r' z' show ?thesis
    by (simp add: sizeInvariant_def entryCount_def)
qed


lemma inv_overwrite_row:
  assumes inv: "sizeInvariant E c s"
    and old: "vatstoreGet s (prefix c enc) \<noteq> None"
    and tag: "take 1 enc \<noteq> ''|''"
  shows "sizeInvariant E c (vatstoreSet (prefix c enc) v s)"
proof -
  let ?s' = "vatstoreSet (prefix c enc) v s"
  from old have isin: "prefix c enc \<in> set (map fst (vatstore s))"
    by (simp add: vatstoreGet_None_iff)
  then have keys': "map fst (AList.update (prefix c enc) v (vatstore s)) = map fst (vatstore s)"
    by (simp add: update_keys)
  from inv have d: "distinct (map fst (vatstore s))"
    and n: "vatstoreGet s (prefix c ''|nextOrdinal'') \<noteq> None"
    and r: "list_all (remotableRowOK E c s) (map fst (vatstore s))"
    and z: "size_c c = int (entryCount c s)"
    by (simp_all add: sizeInvariant_def)
  have n': "vatstoreGet ?s' (prefix c ''|nextOrdinal'') \<noteq> None"
    using n by simp
  have "remotableRowOK E c ?s' k = remotableRowOK E c s k" for k
    using ordinalKeyOf_not_entry [OF tag, of c k] by (intro remotableRowOK_frame) simp
  with r have r': "list_all (remotableRowOK E c ?s') (map fst (vatstore s))"
    by (simp cong: list.pred_cong)
  from d n' r' z keys' show ?thesis
    by (simp add: sizeInvariant_def entryCount_def)
qed

lemma list_all_removeAll: "list_all P xs \<Longrightarrow> list_all P (removeAll x xs)"
  by (induction xs) auto

lemma inv_delete_row:
  assumes inv: "sizeInvariant E c s"
    and old: "vatstoreGet s (prefix c enc) \<noteq> None"
    and tag: "take 1 enc \<noteq> ''|''"
  shows "sizeInvariant E (c\<lparr>size_c := size_c c - 1\<rparr>) (vatstoreDelete (prefix c enc) s)"
proof -
  let ?s' = "vatstoreDelete (prefix c enc) s"
  from old have isin: "prefix c enc \<in> set (map fst (vatstore s))"
    by (simp add: vatstoreGet_None_iff)
  have keys': "map fst (AList.delete (prefix c enc) (vatstore s))
      = removeAll (prefix c enc) (map fst (vatstore s))"
    by (simp add: delete_keys)
  from inv have d: "distinct (map fst (vatstore s))"
    and n: "vatstoreGet s (prefix c ''|nextOrdinal'') \<noteq> None"
    and r: "list_all (remotableRowOK E c s) (map fst (vatstore s))"
    and z: "size_c c = int (entryCount c s)"
    by (simp_all add: sizeInvariant_def)
  have d': "distinct (map fst (vatstore ?s'))"
    using d by (simp add: distinct_delete)
  have n': "vatstoreGet ?s' (prefix c ''|nextOrdinal'') \<noteq> None"
    using n tag by auto
  have "remotableRowOK E c ?s' k = remotableRowOK E c s k" for k
    using ordinalKeyOf_not_entry [OF tag, of c k] by (intro remotableRowOK_frame) simp
  with r have "list_all (remotableRowOK E c ?s') (map fst (vatstore s))"
    by (simp cong: list.pred_cong)
  then have r': "list_all (remotableRowOK E c ?s') (map fst (vatstore ?s'))"
    unfolding vatstore_vatstoreDelete keys' by (rule list_all_removeAll)
  have "length (filter (isEntryRow c) (removeAll (prefix c enc) (map fst (vatstore s)))) + 1
      = length (filter (isEntryRow c) (map fst (vatstore s)))"
    using d isin tag by (intro length_filter_removeAll) (simp_all add: isEntryRow_prefix)
  then have z': "size_c c - 1 = int (entryCount c ?s')"
    using z unfolding entryCount_def vatstore_vatstoreDelete keys' by linarith
  from d' n' r' z' show ?thesis
    by (simp add: sizeInvariant_def entryCount_def)
qed

lemma inv_set_ordinal_row:
  assumes inv: "sizeInvariant E c s"
    and safe: "\<forall>k \<in> set (map fst (vatstore s)). remotableRowOK E c s k \<longrightarrow>
                 remotableRowOK E c (vatstoreSet (prefix c (''|'' @ slot)) v s) k"
  shows "sizeInvariant E c (vatstoreSet (prefix c (''|'' @ slot)) v s)"
proof -
  let ?k = "prefix c (''|'' @ slot)"
  let ?s' = "vatstoreSet ?k v s"
  from inv have d: "distinct (map fst (vatstore s))"
    and n: "vatstoreGet s (prefix c ''|nextOrdinal'') \<noteq> None"
    and r: "list_all (remotableRowOK E c s) (map fst (vatstore s))"
    and z: "size_c c = int (entryCount c s)"
    by (simp_all add: sizeInvariant_def)
  have ne: "\<not> isEntryRow c ?k"
    by (simp add: isEntryRow_prefix)
  have d': "distinct (map fst (vatstore ?s'))"
    using d by (simp add: distinct_update)
  have n': "vatstoreGet ?s' (prefix c ''|nextOrdinal'') \<noteq> None"
    using n by simp
  have okk: "remotableRowOK E c ?s' ?k"
    by (simp add: remotableRowOK_def prefix_def)
  from r safe have "list_all (remotableRowOK E c ?s') (map fst (vatstore s))"
    by (simp add: list_all_iff)
  with okk have r': "list_all (remotableRowOK E c ?s') (map fst (vatstore ?s'))"
    by (simp add: update_keys)
  have z': "size_c c = int (entryCount c ?s')"
    using z ne by (simp add: entryCount_def update_keys)
  from d' n' r' z' show ?thesis
    by (simp add: sizeInvariant_def)
qed


definition isRemotableRow :: "collection \<Rightarrow> string \<Rightarrow> bool" where
  "isRemotableRow c k =
     (take (length (dbKeyPrefix c)) k = dbKeyPrefix c \<and>
      take 1 (drop (length (dbKeyPrefix c)) k) = ''r'')"

lemma remotableRowOK_not_row: "\<not> isRemotableRow c k \<Longrightarrow> remotableRowOK E c s k"
  by (auto simp: remotableRowOK_def isRemotableRow_def Let_def)

lemma remotableRowOK_row:
  assumes "isRemotableRow c k" "remotableRowOK E c s k"
  shows "vatstoreGet s (ordinalKeyOf c k) \<noteq> None \<and> ordinalKeyOf c k \<noteq> prefix c ''|nextOrdinal''"
  using assms
  by (auto simp: remotableRowOK_def isRemotableRow_def ordinalKeyOf_def Let_def
      split: option.splits)

lemma remotableRowOK_other_ordinal:
  assumes "remotableRowOK E c s k"
    and "isRemotableRow c k \<Longrightarrow> ordinalKeyOf c k \<noteq> K"
  shows "remotableRowOK E c (vatstoreSet K v s) k \<and> remotableRowOK E c (vatstoreDelete K s) k"
proof (cases "isRemotableRow c k")
  case True
  with assms(2) have "ordinalKeyOf c k \<noteq> K" by simp
  then have "remotableRowOK E c (vatstoreSet K v s) k = remotableRowOK E c s k"
    and "remotableRowOK E c (vatstoreDelete K s) k = remotableRowOK E c s k"
    by (intro remotableRowOK_frame; simp)+
  with assms(1) show ?thesis by simp
next
  case False
  then show ?thesis by (simp add: remotableRowOK_not_row)
qed

lemma inv_generateOrdinal:
  assumes inv: "sizeInvariant E c s" and absent: "getOrdinal c s key = None"
  shows "sizeInvariant E c (generateOrdinal E c key s)"
proof -
  let ?k1 = "prefix c (''|'' @ getSlotForVal key)"
  let ?v1 = "Raw (numberToString (parseInt10 (rowOptText E (vatstoreGet s (prefix c ''|nextOrdinal'')))))"
  let ?s1 = "vatstoreSet ?k1 ?v1 s"
  from inv have r: "list_all (remotableRowOK E c s) (map fst (vatstore s))"
    by (simp add: sizeInvariant_def)
  from absent have none: "vatstoreGet s ?k1 = None"
    by (simp add: getOrdinal_def)
  have inv1: "sizeInvariant E c ?s1"
  proof (rule inv_set_ordinal_row [OF inv], intro ballI impI)
    fix k assume ok: "remotableRowOK E c s k"
    have "ordinalKeyOf c k \<noteq> ?k1" if "isRemotableRow c k"
      using remotableRowOK_row [OF that ok] none by auto
    from remotableRowOK_other_ordinal [OF ok this] show "remotableRowOK E c ?s1 k"
      by simp
  qed
  have "sizeInvariant E c (vatstoreSet (prefix c (''|'' @ ''nextOrdinal'')) v ?s1)" for v
  proof (rule inv_set_ordinal_row [OF inv1], intro ballI impI)
    fix k assume ok: "remotableRowOK E c ?s1 k"
    have "ordinalKeyOf c k \<noteq> prefix c (''|'' @ ''nextOrdinal'')" if "isRemotableRow c k"
      using remotableRowOK_row [OF that ok] by simp
    from remotableRowOK_other_ordinal [OF ok this]
    show "remotableRowOK E c (vatstoreSet (prefix c (''|'' @ ''nextOrdinal'')) v ?s1) k"
      by simp
  qed
  then show ?thesis
    by (simp add: generateOrdinal_def Let_def)
qed

lemma inv_delete_ordinal_row:
  assumes inv: "sizeInvariant E c s"
    and slot: "slot \<noteq> ''nextOrdinal''"
    and unused: "\<forall>k \<in> set (map fst (vatstore s)). isRemotableRow c k \<longrightarrow>
                   ordinalKeyOf c k \<noteq> prefix c (''|'' @ slot)"
  shows "sizeInvariant E c (vatstoreDelete (prefix c (''|'' @ slot)) s)"
proof -
  let ?k = "prefix c (''|'' @ slot)"
  let ?s' = "vatstoreDelete ?k s"
  from inv have d: "distinct (map fst (vatstore s))"
    and n: "vatstoreGet s (prefix c ''|nextOrdinal'') \<noteq> None"
    and r: "list_all (remotableRowOK E c s) (map fst (vatstore s))"
    and z: "size_c c = int (entryCount c s)"
    by (simp_all add: sizeInvariant_def)
  have ne: "\<not> isEntryRow c ?k"
    by (simp add: isEntryRow_prefix)
  have d': "distinct (map fst (vatstore ?s'))"
    using d by (simp add: distinct_delete)
  have n': "vatstoreGet ?s' (prefix c ''|nextOrdinal'') \<noteq> None"
    using n slot by simp
  have "remotableRowOK E c ?s' k" if "k \<in> set (map fst (vatstore s))" for k
  proof -
    from r that have ok: "remotableRowOK E c s k"
      by (auto simp: list_all_iff)
    from unused that have "isRemotableRow c k \<Longrightarrow> ordinalKeyOf c k \<noteq> ?k"
      by blast
    from remotableRowOK_other_ordinal [OF ok this] show ?thesis
      by simp
  qed
  then have "list_all (remotableRowOK E c ?s') (map fst (vatstore s))"
    by (simp add: list_all_iff)
  then have "list_all (remotableRowOK E c ?s') (removeAll ?k (map fst (vatstore s)))"
    by (rule list_all_removeAll)
  then have r': "list_all (remotableRowOK E c ?s') (map fst (vatstore ?s'))"
    by (simp add: delete_keys)
  have z': "size_c c = int (entryCount c ?s')"
    using z ne by (simp add: entryCount_def delete_keys filter_removeAll_other)
  from d' n' r' z' show ?thesis
    by (simp add: sizeInvariant_def)
qed


lemma encodeKey_remotable:
  assumes "isRemotable key" "encodeKey E c s key = Inr enc"
  shows "\<exists>ordinal. getOrdinal c s key = Some ordinal \<and>
           enc = ''r'' @ zeroPad (rowText E ordinal) BIGINT_TAG_LEN @ '':'' @ getSlotForVal key"
  using assms by (cases key) (auto simp: encodeKey_def split: option.splits)

lemma remotable_enc_slot [simp]:
  "drop (BIGINT_TAG_LEN + 2) (''r'' @ zeroPad x BIGINT_TAG_LEN @ '':'' @ slot) = slot"
  by (simp add: BIGINT_TAG_LEN_def)

lemma ordinalKeyOf_prefix [simp]:
  "ordinalKeyOf c (prefix c enc) = prefix c (''|'' @ drop (BIGINT_TAG_LEN + 2) enc)"
  by (simp add: ordinalKeyOf_def prefix_def)

lemma isRemotableRow_prefix [simp]: "isRemotableRow c (prefix c enc) \<longleftrightarrow> take 1 enc = ''r''"
  by (simp add: isRemotableRow_def prefix_def)

lemma isRemotableRow_decompose:
  "isRemotableRow c k \<Longrightarrow> k = prefix c (drop (length (dbKeyPrefix c)) k)"
  by (metis append_take_drop_id isRemotableRow_def prefix_def)

lemma remotableRowOK_rest:
  assumes "isRemotableRow c k" "remotableRowOK E c s k"
    "vatstoreGet s (ordinalKeyOf c k) = Some ordinal"
  shows "k = prefix c (''r'' @ zeroPad (rowText E ordinal) BIGINT_TAG_LEN @ '':'' @
                        drop (BIGINT_TAG_LEN + 2) (drop (length (dbKeyPrefix c)) k))"
proof -
  define rest where "rest = drop (length (dbKeyPrefix c)) k"
  from assms have tk: "take (BIGINT_TAG_LEN + 2) rest
      = ''r'' @ zeroPad (rowText E ordinal) BIGINT_TAG_LEN @ '':''"
    by (simp add: remotableRowOK_def isRemotableRow_def ordinalKeyOf_def Let_def rest_def)
  have "rest = take (BIGINT_TAG_LEN + 2) rest @ drop (BIGINT_TAG_LEN + 2) rest"
    by simp
  also have "\<dots> = (''r'' @ zeroPad (rowText E ordinal) BIGINT_TAG_LEN @ '':'')
      @ drop (BIGINT_TAG_LEN + 2) rest"
    by (simp only: tk)
  also have "\<dots> = ''r'' @ zeroPad (rowText E ordinal) BIGINT_TAG_LEN @ '':''
      @ drop (BIGINT_TAG_LEN + 2) rest"
    by (simp only: append_assoc)
  finally have eq: "rest = ''r'' @ zeroPad (rowText E ordinal) BIGINT_TAG_LEN @ '':''
      @ drop (BIGINT_TAG_LEN + 2) rest" .
  have k: "k = prefix c rest"
    using isRemotableRow_decompose [OF assms(1)] unfolding rest_def .
  show ?thesis
    unfolding rest_def [symmetric]
    by (subst k, subst eq, rule refl)
qed

lemma remotable_enc_tag [simp]:
  "take (BIGINT_TAG_LEN + 2) (''r'' @ zeroPad x BIGINT_TAG_LEN @ '':'' @ slot)
     = ''r'' @ zeroPad x BIGINT_TAG_LEN @ '':''"
  by (simp add: BIGINT_TAG_LEN_def)

lemma vatstore_initOrdinal:
  "vatstore (initOrdinal E c s key) =
     (if isRemotable key then vatstore (generateOrdinal E c key s) else vatstore s)"
  by (simp add: initOrdinal_def)

lemma vatstore_initRefs:
  "vatstore (initRefs E c s key cd) =
     (if isRemotable key then vatstore (generateOrdinal E c key s) else vatstore s)"
  by (simp add: initRefs_def vatstore_initOrdinal)

lemma initOrdinal_preserves:
  assumes inv: "sizeInvariant E c s"
    and m: "matches E key (keySchema c)" and absent: "has E c s key = Inr False"
  shows "sizeInvariant E c (initOrdinal E c s key)"
proof (cases "isRemotable key")
  case True
  with m absent have "getOrdinal c s key = None"
    by (simp add: has_def)
  from inv_generateOrdinal [OF inv this]
  have "sizeInvariant E c (generateOrdinal E c key s)" .
  moreover have "sizeInvariant E c (initOrdinal E c s key)
      = sizeInvariant E c (generateOrdinal E c key s)"
    using True by (intro sizeInvariant_cong) (simp_all add: vatstore_initOrdinal)
  ultimately show ?thesis by simp
next
  case False
  have "sizeInvariant E c (initOrdinal E c s key) = sizeInvariant E c s"
    using False by (intro sizeInvariant_cong) (simp_all add: vatstore_initOrdinal)
  with inv show ?thesis by simp
qed

lemma init_preserves:
  assumes inv: "sizeInvariant E c s" and res: "init E c s key val = (r, c', s')"
  shows "sizeInvariant E c' s'"
proof (cases r)
  case (Inl e)
  from init_failure_cases [OF res [unfolded Inl]] show ?thesis
  proof
    assume "c' = c \<and> s' = s \<and> (\<not> matches E key (keySchema c) \<or> has E c s key \<noteq> Inr False)"
    with inv show ?thesis by simp
  next
    assume refused: "matches E key (keySchema c) \<and> has E c s key = Inr False \<and>
        serialize E val = Inl e \<and>
        c' = c\<lparr>currentGenerationNumber := currentGenerationNumber c + 1\<rparr> \<and>
        s' = initOrdinal E c s key"
    then have "sizeInvariant E c (initOrdinal E c s key)"
      using inv by (intro initOrdinal_preserves) simp_all
    with refused show ?thesis by simp
  qed
next
  case (Inr u)
  from res Inr have m: "matches E key (keySchema c)"
    by (auto simp: init_def split: if_splits)
  from res Inr m have absent: "has E c s key = Inr False"
    by (cases "has E c s key") (auto simp: init_def split: bool.splits)
  from res Inr init_absent_refused [OF m absent, of val] obtain cd
    where cd: "serialize E val = Inr cd"
    by (cases "serialize E val") auto
  let ?s2 = "initRefs E c s key cd"
  from keyToDBKey_initRefs [OF m absent, of cd] obtain dbKey
    where dk: "keyToDBKey E c ?s2 key = Inr dbKey" ..
  then obtain enc where enc: "encodeKey E c ?s2 key = Inr enc" and dbKey: "dbKey = prefix c enc"
    by (auto simp: keyToDBKey_Inr)
  from res init_absent_unfold [OF m absent cd] dk dbKey
  have c': "c' = c\<lparr>currentGenerationNumber := currentGenerationNumber c + 1,
                     size_c := size_c c + 1\<rparr>"
    and s': "s' = vatstoreSet (prefix c enc) (Json (JCap cd)) ?s2"
    by simp_all
  note tag = encodeKey_tag [OF enc]
  have "sizeInvariant E c ?s2 = sizeInvariant E c (initOrdinal E c s key)"
    by (intro sizeInvariant_cong) (simp_all add: vatstore_initRefs vatstore_initOrdinal)
  with initOrdinal_preserves [OF inv m absent] have inv2: "sizeInvariant E c ?s2"
    by simp
  have new: "vatstoreGet ?s2 (prefix c enc) = None"
  proof (cases "isRemotable key")
    case False
    have "keyToDBKey E c s key = keyToDBKey E c ?s2 key"
      using False by (intro keyToDBKey_not_remotable) simp_all
    with dk dbKey m absent False have "vatstoreGet s (prefix c enc) = None"
      by (simp add: has_def)
    moreover have "vatstoreGet ?s2 (prefix c enc) = vatstoreGet s (prefix c enc)"
      using False by (simp add: vatstoreGet_def vatstore_initRefs)
    ultimately show ?thesis by simp
  next
    case True
    with m absent have none: "getOrdinal c s key = None"
      by (simp add: has_def)
    from encodeKey_remotable [OF True enc] obtain ordinal
      where encr: "enc = ''r'' @ zeroPad (rowText E ordinal) BIGINT_TAG_LEN @ '':'' @ getSlotForVal key"
      by blast
    show ?thesis
    proof (rule ccontr)
      assume "vatstoreGet ?s2 (prefix c enc) \<noteq> None"
      then have "vatstoreGet (generateOrdinal E c key s) (prefix c enc) \<noteq> None"
        using True by (simp add: vatstoreGet_def vatstore_initRefs)
      then have "vatstoreGet s (prefix c enc) \<noteq> None"
        using encr by (simp add: generateOrdinal_def Let_def split: if_splits)
      then have isin: "prefix c enc \<in> set (map fst (vatstore s))"
        by (simp add: vatstoreGet_None_iff)
      from inv have "list_all (remotableRowOK E c s) (map fst (vatstore s))"
        by (simp add: sizeInvariant_def)
      with isin have ok: "remotableRowOK E c s (prefix c enc)"
        by (auto simp: list_all_iff)
      have row: "isRemotableRow c (prefix c enc)"
        using encr by simp
      from remotableRowOK_row [OF row ok] encr none show False
        by (simp add: getOrdinal_def)
    qed
  qed
  have ok: "remotableRowOK E c (vatstoreSet (prefix c enc) (Json (JCap cd)) ?s2)
              (prefix c enc)"
  proof (cases "isRemotable key")
    case False
    with tag have "\<not> isRemotableRow c (prefix c enc)" by simp
    then show ?thesis by (rule remotableRowOK_not_row)
  next
    case True
    with m absent have none: "getOrdinal c s key = None"
      by (simp add: has_def)
    from inv have "vatstoreGet s (prefix c ''|nextOrdinal'') \<noteq> None"
      by (simp add: sizeInvariant_def)
    with none have slot: "getSlotForVal key \<noteq> ''nextOrdinal''"
      by (auto simp: getOrdinal_def)
    from encodeKey_remotable [OF True enc] obtain ordinal
      where ord: "getOrdinal c ?s2 key = Some ordinal"
        and encr: "enc = ''r'' @ zeroPad (rowText E ordinal) BIGINT_TAG_LEN @ '':'' @ getSlotForVal key"
      by blast
    from ord slot show ?thesis
      unfolding encr
      by (simp add: remotableRowOK_def getOrdinal_def Let_def prefix_def)
  qed
  from inv_add_row [OF inv2 new _ ok] tag
  have "sizeInvariant E (c\<lparr>size_c := size_c c + 1\<rparr>) s'"
    by (simp add: s')
  moreover have "sizeInvariant E c' s' = sizeInvariant E (c\<lparr>size_c := size_c c + 1\<rparr>) s'"
    by (intro sizeInvariant_cong) (simp_all add: c')
  ultimately show ?thesis by simp
qed


lemma set_c_preserves:
  assumes inv: "sizeInvariant E c s" and res: "set_c E c s key val = (r, c', s')"
  shows "sizeInvariant E c' s'"
proof (cases r)
  case (Inl e)
  with res have "c' = c \<and> s' = s"
    by (auto simp: set_c_def Let_def split: if_splits sum.splits option.splits)
  with inv show ?thesis by simp
next
  case (Inr u)
  with res obtain dbKey where dk: "keyToDBKey E c s key = Inr dbKey"
    by (cases "keyToDBKey E c s key") (auto simp: set_c_def split: if_splits)
  from res Inr dk obtain after where old: "vatstoreGet s dbKey \<noteq> None"
    and c': "c' = c"
    and vs: "vatstore s' = AList.update dbKey (Json (JCap after)) (vatstore s)"
    by (auto simp: set_c_def Let_def split: if_splits sum.splits option.splits)
  from dk obtain enc where enc: "encodeKey E c s key = Inr enc" and dbKey: "dbKey = prefix c enc"
    by (auto simp: keyToDBKey_Inr)
  from inv_overwrite_row [OF inv] old dbKey encodeKey_tag [OF enc]
  have "sizeInvariant E c (vatstoreSet dbKey (Json (JCap after)) s)"
    by simp
  moreover have "sizeInvariant E c' s'
      = sizeInvariant E c (vatstoreSet dbKey (Json (JCap after)) s)"
    by (intro sizeInvariant_cong) (simp_all add: c' vs)
  ultimately show ?thesis by simp
qed

lemma deleteInternal_preserves:
  assumes inv: "sizeInvariant E c s" and res: "deleteInternal E c s key = (r, c', s')"
  shows "sizeInvariant E c' s'"
proof (cases r)
  case (Inl e)
  with res have "c' = c \<and> s' = s"
    by (auto simp: deleteInternal_def Let_def split: if_splits sum.splits option.splits)
  with inv show ?thesis by simp
next
  case (Inr u)
  with res obtain dbKey where dk: "keyToDBKey E c s key = Inr dbKey"
    by (cases "keyToDBKey E c s key") (auto simp: deleteInternal_def split: if_splits)
  from res Inr dk have old: "vatstoreGet s dbKey \<noteq> None"
    and c': "c' = c\<lparr>size_c := size_c c - 1\<rparr>"
    and vs: "vatstore s' =
               (if isRemotable key then
                  AList.delete (prefix c (''|'' @ getSlotForVal key)) (AList.delete dbKey (vatstore s))
                else AList.delete dbKey (vatstore s))"
    by (auto simp: deleteInternal_def deleteOrdinal_def Let_def
        split: if_splits sum.splits option.splits)
  from dk obtain enc where enc: "encodeKey E c s key = Inr enc" and dbKey: "dbKey = prefix c enc"
    by (auto simp: keyToDBKey_Inr)
  note tag = encodeKey_tag [OF enc]
  let ?c' = "c\<lparr>size_c := size_c c - 1\<rparr>"
  let ?s1 = "vatstoreDelete (prefix c enc) s"
  from old dbKey have old1: "vatstoreGet s (prefix c enc) \<noteq> None"
    by simp
  from inv_delete_row [OF inv old1] tag have inv1: "sizeInvariant E ?c' ?s1"
    by simp
  show ?thesis
  proof (cases "isRemotable key")
    case False
    have "sizeInvariant E c' s' = sizeInvariant E ?c' ?s1"
      using False by (intro sizeInvariant_cong) (simp_all add: c' vs dbKey)
    with inv1 show ?thesis by simp
  next
    case True
    from encodeKey_remotable [OF True enc] obtain ordinal
      where ord: "getOrdinal c s key = Some ordinal"
        and encr: "enc = ''r'' @ zeroPad (rowText E ordinal) BIGINT_TAG_LEN @ '':'' @ getSlotForVal key"
      by blast
    from inv have rows: "list_all (remotableRowOK E c s) (map fst (vatstore s))"
      and d: "distinct (map fst (vatstore s))"
      by (simp_all add: sizeInvariant_def)
    from old1 have isin: "prefix c enc \<in> set (map fst (vatstore s))"
      by (simp add: vatstoreGet_None_iff)
    with rows have ok: "remotableRowOK E c s (prefix c enc)"
      by (auto simp: list_all_iff)
    have row: "isRemotableRow c (prefix c enc)"
      using encr by simp
    from ok row encr have slot: "getSlotForVal key \<noteq> ''nextOrdinal''"
      by (simp add: remotableRowOK_def isRemotableRow_def prefix_def Let_def)
    have unused: "\<forall>k \<in> set (map fst (vatstore ?s1)). isRemotableRow ?c' k \<longrightarrow>
                    ordinalKeyOf ?c' k \<noteq> prefix ?c' (''|'' @ getSlotForVal key)"
    proof (intro ballI impI notI)
      fix k
      assume k1: "k \<in> set (map fst (vatstore ?s1))" and rk: "isRemotableRow ?c' k"
        and same: "ordinalKeyOf ?c' k = prefix ?c' (''|'' @ getSlotForVal key)"
      from k1 have kin: "k \<in> set (map fst (vatstore s))" and kne: "k \<noteq> prefix c enc"
        by (simp_all add: delete_keys)
      from rk have rk': "isRemotableRow c k"
        by (simp add: isRemotableRow_def)
      from same have same': "ordinalKeyOf c k = prefix c (''|'' @ getSlotForVal key)"
        by (simp add: ordinalKeyOf_def prefix_def)
      from rows kin have okk: "remotableRowOK E c s k"
        by (auto simp: list_all_iff)
      from ord same' have "vatstoreGet s (ordinalKeyOf c k) = Some ordinal"
        by (simp add: getOrdinal_def)
      from remotableRowOK_rest [OF rk' okk this] same' encr have "k = prefix c enc"
        by (simp add: ordinalKeyOf_def)
      with kne show False by simp
    qed
    have "sizeInvariant E ?c' (vatstoreDelete (prefix ?c' (''|'' @ getSlotForVal key)) ?s1)"
      by (rule inv_delete_ordinal_row [OF inv1 slot unused])
    moreover have "sizeInvariant E c' s'
        = sizeInvariant E ?c' (vatstoreDelete (prefix ?c' (''|'' @ getSlotForVal key)) ?s1)"
      using True by (intro sizeInvariant_cong) (simp_all add: c' vs dbKey)
    ultimately show ?thesis by simp
  qed
qed

lemma del_preserves:
  assumes inv: "sizeInvariant E c s" and res: "del E c s key = (r, c', s')"
  shows "sizeInvariant E c' s'"
  using deleteInternal_preserves [OF _ res [unfolded del_def]] inv by simp

lemma clear_loop_preserves:
  "sizeInvariant E c s \<Longrightarrow> clear_loop E c s g = (r, c', s') \<Longrightarrow> sizeInvariant E c' s'"
proof (induction E c s g rule: clear_loop.induct)
  case (1 E c s g)
  show ?case
  proof (cases "keys_next E c s g")
    case (Pair res g1)
    show ?thesis
    proof (cases res)
      case (Inl e)
      with Pair "1.prems" show ?thesis by (subst (asm) clear_loop.simps) simp
    next
      case (Inr ko)
      show ?thesis
      proof (cases ko)
        case None
        with Pair Inr "1.prems" show ?thesis by (subst (asm) clear_loop.simps) simp
      next
        case (Some k)
        obtain r1 c1 s1 where di: "deleteInternal E c s k = (r1, c1, s1)"
          by (cases "deleteInternal E c s k")
        from deleteInternal_preserves [OF "1.prems"(1) di] have inv1: "sizeInvariant E c1 s1" .
        show ?thesis
        proof (cases r1)
          case (Inl e)
          with Pair Inr Some di "1.prems" inv1 show ?thesis
            by (subst (asm) clear_loop.simps) simp
        next
          case (Inr u)
          with Pair \<open>res = Inr ko\<close> Some di "1.prems"(2)
          have "clear_loop E c1 s1 g1 = (r, c', s')"
            by (subst (asm) clear_loop.simps) simp
          from "1.IH" [OF Pair [symmetric] \<open>res = Inr ko\<close> Some di [symmetric] Inr refl inv1 this]
          show ?thesis .
        qed
      qed
    qed
  qed
qed

lemma clear_preserves:
  assumes inv: "sizeInvariant E c s" and res: "clear E c s kp vp = (r, c', s')"
  shows "sizeInvariant E c' s'"
proof -
  obtain r1 c1 s1 where cl: "clear_loop E c s (keys kp vp) = (r1, c1, s1)"
    by (cases "clear_loop E c s (keys kp vp)")
  from clear_loop_preserves [OF inv cl] have "sizeInvariant E c1 s1" .
  with res cl show ?thesis
    by (cases r1) (auto simp: clear_def)
qed


text \<open>
  \<^verbatim>\<open>makeCollection\<close> establishes the invariant when the vat store holds no row under the
  prefix of the new collection.
\<close>

lemma registerKind_vatstore: "vatstore (snd (snd (registerKind k acc))) = vatstore (snd (snd acc))"
  by (cases acc)
     (simp add: registerKind_def registerReanimator_def allocateExportID_def Let_def
        split: prod.splits)

lemma fold_registerKind_vatstore:
  "vatstore (snd (snd (fold registerKind ks acc))) = vatstore (snd (snd acc))"
  by (induction ks arbitrary: acc) (simp_all add: registerKind_vatstore)

lemma obtainStoreKindID_keys:
  assumes "obtainStoreKindID m s kindName = (r, m', s')"
  shows "set (map fst (vatstore s')) \<subseteq> insert ''storeKindIDTable'' (set (map fst (vatstore s)))"
    and "distinct (map fst (vatstore s)) \<Longrightarrow> distinct (map fst (vatstore s'))"
proof -
  have "vatstore s' = vatstore s \<or>
    (\<exists>v. vatstore s' = AList.update ''storeKindIDTable'' v (vatstore s))"
  proof (cases "storeKindInfoNeedsInitialization m")
    case False
    with assms show ?thesis by (simp add: obtainStoreKindID_def)
  next
    case True
    let ?m0 = "m\<lparr>storeKindInfoNeedsInitialization := False\<rparr>"
    show ?thesis
    proof (cases r)
      case (Inl e)
      with assms True have "s' = s"
        by (auto simp: obtainStoreKindID_def Let_def split: sum.splits prod.splits)
      then show ?thesis by simp
    next
      case (Inr kid)
      let ?ks = "[scalarMapStore, scalarWeakMapStore, scalarSetStore, scalarWeakSetStore]"
      from assms True Inr
      have "\<exists>t x1 x2b. fold registerKind ?ks (t, ?m0, s) = (x1, m', x2b) \<and>
              s' = vatstoreSet ''storeKindIDTable'' (Json (JTable x1)) x2b"
        by (auto simp: obtainStoreKindID_def Let_def simp del: fold_simps
            split: sum.splits prod.splits)
      then obtain t x1 x2b where f: "fold registerKind ?ks (t, ?m0, s) = (x1, m', x2b)"
        and s': "s' = vatstoreSet ''storeKindIDTable'' (Json (JTable x1)) x2b"
        by blast
      from fold_registerKind_vatstore [of ?ks "(t, ?m0, s)"] f have "vatstore x2b = vatstore s"
        by (simp del: fold_simps)
      with s' have "vatstore s' = AList.update ''storeKindIDTable'' (Json (JTable x1)) (vatstore s)"
        by simp
      then show ?thesis by blast
    qed
  qed
  then consider (same) "vatstore s' = vatstore s"
    | (upd) v where "vatstore s' = AList.update ''storeKindIDTable'' v (vatstore s)"
    by blast
  then have "fst ` set (vatstore s') \<subseteq> insert ''storeKindIDTable'' (fst ` set (vatstore s))
      \<and> (distinct (map fst (vatstore s)) \<longrightarrow> distinct (map fst (vatstore s')))"
  proof cases
    case same
    then show ?thesis by auto
  next
    case upd
    then show ?thesis by (simp add: dom_update distinct_update)
  qed
  then show "set (map fst (vatstore s')) \<subseteq> insert ''storeKindIDTable'' (set (map fst (vatstore s)))"
    and "distinct (map fst (vatstore s)) \<Longrightarrow> distinct (map fst (vatstore s'))"
    by simp_all
qed

lemma sizeInvariant_fresh:
  assumes d: "distinct (map fst (vatstore s))"
    and n: "vatstoreGet s (prefix c ''|nextOrdinal'') \<noteq> None"
    and rows: "\<forall>k \<in> set (map fst (vatstore s)).
                 take (length (dbKeyPrefix c)) k = dbKeyPrefix c \<longrightarrow>
                 take 1 (drop (length (dbKeyPrefix c)) k) = ''|''"
    and z: "size_c c = 0"
  shows "sizeInvariant E c s"
proof -
  from rows have "\<forall>k \<in> set (map fst (vatstore s)). \<not> isEntryRow c k"
    by (auto simp: isEntryRow_def)
  then have "filter (isEntryRow c) (map fst (vatstore s)) = []"
    by (simp add: filter_empty_conv)
  then have cnt: "entryCount c s = 0"
    by (simp add: entryCount_def)
  from rows have "\<forall>k \<in> set (map fst (vatstore s)). \<not> isRemotableRow c k"
    by (auto simp: isRemotableRow_def)
  then have "list_all (remotableRowOK E c s) (map fst (vatstore s))"
    by (auto simp: list_all_iff intro: remotableRowOK_not_row)
  with d n cnt z show ?thesis
    by (simp add: sizeInvariant_def)
qed

lemma makeCollection_establishes:
  assumes mk: "makeCollection E m s lbl kindName schema = (Inr (vobjID, c), m', s')"
    and d: "distinct (map fst (vatstore s))"
    and free: "\<forall>k \<in> set (map fst (vatstore s)).
                 take (length (prefixc (JNum (nextCollectionID m)) [])) k
                   \<noteq> prefixc (JNum (nextCollectionID m)) []"
  shows "sizeInvariant E c s'"
proof -
  let ?id = "JNum (nextCollectionID m)"
  let ?pre = "''vc.'' @ toStringRadix 10 (nextCollectionID m) @ ''.''"
  let ?m1 = "m\<lparr>nextCollectionID := nextCollectionID m + 1\<rparr>"
  let ?sch = "if schema = PUndefined then M_scalar E else schema"
  let ?v1 = "Raw ''1''"
  let ?v3 = "Raw (templateText lbl)"
  from mk have "\<exists>kid s2 v2. obtainStoreKindID ?m1 s kindName = (Inr kid, m', s2) \<and>
      summonCollection E
        (vatstoreSet (prefixc ?id ''|label'') ?v3
          (vatstoreSet (prefixc ?id ''|keySchema'') v2
            (vatstoreSet (prefixc ?id ''|nextOrdinal'') ?v1 s2))) lbl ?id kindName ?sch = (c, s')"
    by (auto simp: makeCollection_def allocateCollectionID_def Let_def
        split: jsval.splits if_splits prod.splits sum.splits)
  then obtain kid s2 v2
    where ob: "obtainStoreKindID ?m1 s kindName = (Inr kid, m', s2)"
      and cs: "summonCollection E
        (vatstoreSet (prefixc ?id ''|label'') ?v3
          (vatstoreSet (prefixc ?id ''|keySchema'') v2
            (vatstoreSet (prefixc ?id ''|nextOrdinal'') ?v1 s2))) lbl ?id kindName ?sch = (c, s')"
    by blast
  note k2 = obtainStoreKindID_keys [OF ob]
  from cs have pre: "dbKeyPrefix c = ?pre" and z: "size_c c = 0"
    and vs: "vatstore s' = AList.update (prefixc ?id ''|label'') ?v3
               (AList.update (prefixc ?id ''|keySchema'') v2
                 (AList.update (prefixc ?id ''|nextOrdinal'') ?v1 (vatstore s2)))"
    by (auto simp: summonCollection_def Let_def prefixc_def)
  have pc: "prefixc ?id x = ?pre @ x" for x
    by (simp add: prefixc_def)
  have d': "distinct (map fst (vatstore s'))"
    using k2(2) [OF d] by (simp add: vs distinct_update)
  have n': "vatstoreGet s' (prefix c ''|nextOrdinal'') \<noteq> None"
    by (simp add: vatstoreGet_def vs update_conv' prefix_def pre pc)
  have tbl: "take (length ?pre) ''storeKindIDTable'' \<noteq> ?pre"
    by simp
  from free have free': "\<forall>k \<in> set (map fst (vatstore s)). take (length ?pre) k \<noteq> ?pre"
    by (simp add: prefixc_def)
  have rows: "\<forall>k \<in> set (map fst (vatstore s')).
                 take (length (dbKeyPrefix c)) k = dbKeyPrefix c \<longrightarrow>
                 take 1 (drop (length (dbKeyPrefix c)) k) = ''|''"
  proof (intro ballI impI)
    fix k assume "k \<in> set (map fst (vatstore s'))"
      and tk: "take (length (dbKeyPrefix c)) k = dbKeyPrefix c"
    then have "k \<in> {?pre @ ''|label'', ?pre @ ''|keySchema'', ?pre @ ''|nextOrdinal''}
        \<union> fst ` set (vatstore s2)"
      by (auto simp: vs dom_update pc)
    with k2(1) have "k \<in> {?pre @ ''|label'', ?pre @ ''|keySchema'', ?pre @ ''|nextOrdinal'',
        ''storeKindIDTable''} \<union> fst ` set (vatstore s)"
      by auto
    with free' tk tbl show "take 1 (drop (length (dbKeyPrefix c)) k) = ''|''"
      unfolding pre by auto
  qed
  from sizeInvariant_fresh [OF d' n' rows z] show ?thesis .
qed

text \<open>
  C8. The size counter of a handle equals the number of entry rows of its collection. This,
  together with the agreement between remotable rows and ordinal rows, holds of a handle
  that \<^verbatim>\<open>makeCollection\<close> returns and is preserved by \<^verbatim>\<open>init\<close>, \<^verbatim>\<open>set\<close>, \<^verbatim>\<open>delete\<close>
  and \<^verbatim>\<open>clear\<close>, whether they return or throw.
\<close>

theorem size_invariant_preserved:
  assumes "sizeInvariant E c s"
  shows "(init E c s key val = (ri, ci, si) \<longrightarrow> sizeInvariant E ci si) \<and>
         (set_c E c s key val = (rs, cs, ss) \<longrightarrow> sizeInvariant E cs ss) \<and>
         (del E c s key = (rd, cd, sd) \<longrightarrow> sizeInvariant E cd sd) \<and>
         (clear E c s kp vp = (rc, cc, sc) \<longrightarrow> sizeInvariant E cc sc)"
  using init_preserves [OF assms] set_c_preserves [OF assms] del_preserves [OF assms]
    clear_preserves [OF assms]
  by blast

lemma exampleWeakInit_value:
  "fst exampleWeakInit = Inr ()"
  "size_c (fst (snd exampleWeakInit)) = 1"
  "dbKeyPrefix (fst (snd exampleWeakInit)) = ''vc.1.''"
  "vatstore (snd (snd exampleWeakInit)) =
     [(''vc.1.|nextOrdinal'', Raw ''2''), (''vc.1.|o-5'', Raw ''1''),
      (''vc.1.r0000000001:o-5'', Json (JCap \<lparr>body = ''sv'', slots = []\<rparr>))]"
  by (simp_all add: exampleWeakInit_def init_def has_def getOrdinal_def generateOrdinal_def
      keyToDBKey_def encodeKey_def exampleEnv_def exampleMatches_def exampleCollection_def
      freshSys_def emptySys_def vatstoreGet_def vatstoreSet_def prefix_def Let_def
      rowOptText_def parseInt10_def isDecDigit_def digitVal_def numberToString_def
      numberPlusOne_def digitChar_def zeroPad_def BIGINT_TAG_LEN_def addRecognizableValue_def)


lemma freshSys_invariant:
  "sizeInvariant exampleEnv (exampleCollection True (PTagged ''match:any'' PNull)) freshSys"
  by (simp add: sizeInvariant_def freshSys_def emptySys_def exampleCollection_def
      vatstoreGet_def prefix_def remotableRowOK_def entryCount_def isEntryRow_def Let_def)

theorem size_invariant_preserved_witness:
  "sizeInvariant exampleEnv (exampleCollection True (PTagged ''match:any'' PNull)) freshSys \<and>
   fst exampleWeakInit = Inr () \<and>
   sizeInvariant exampleEnv (fst (snd exampleWeakInit)) (snd (snd exampleWeakInit)) \<and>
   sizeInvariant exampleEnv
     (fst (snd (set_c exampleEnv (exampleCollection True (PTagged ''match:any'' PNull)) freshSys
                  (PString ''a'') (PString ''w''))))
     (snd (snd (set_c exampleEnv (exampleCollection True (PTagged ''match:any'' PNull)) freshSys
                  (PString ''a'') (PString ''w'')))) \<and>
   sizeInvariant exampleEnv
     (fst (snd (del exampleEnv (exampleCollection True (PTagged ''match:any'' PNull)) freshSys
                  (PString ''a''))))
     (snd (snd (del exampleEnv (exampleCollection True (PTagged ''match:any'' PNull)) freshSys
                  (PString ''a'')))) \<and>
   sizeInvariant exampleEnv
     (fst (snd (clear exampleEnv (exampleCollection True (PTagged ''match:any'' PNull)) freshSys
                  PUndefined PUndefined)))
     (snd (snd (clear exampleEnv (exampleCollection True (PTagged ''match:any'' PNull)) freshSys
                  PUndefined PUndefined)))"
proof -
  let ?c = "exampleCollection True (PTagged ''match:any'' PNull)"
  let ?rs = "set_c exampleEnv ?c freshSys (PString ''a'') (PString ''w'')"
  let ?rd = "del exampleEnv ?c freshSys (PString ''a'')"
  let ?rc = "clear exampleEnv ?c freshSys PUndefined PUndefined"
  have i: "init exampleEnv ?c freshSys (PRemotable ''o-5'') (PString ''v'')
      = (fst exampleWeakInit, fst (snd exampleWeakInit), snd (snd exampleWeakInit))"
    by (simp add: exampleWeakInit_def)
  have s: "?rs = (fst ?rs, fst (snd ?rs), snd (snd ?rs))"
    and d: "?rd = (fst ?rd, fst (snd ?rd), snd (snd ?rd))"
    and c: "?rc = (fst ?rc, fst (snd ?rc), snd (snd ?rc))"
    by simp_all
  from size_invariant_preserved [OF freshSys_invariant,
      where key = "PRemotable ''o-5''" and val = "PString ''v''"
        and ri = "fst exampleWeakInit" and ci = "fst (snd exampleWeakInit)"
        and si = "snd (snd exampleWeakInit)"] i
  have a1: "sizeInvariant exampleEnv (fst (snd exampleWeakInit)) (snd (snd exampleWeakInit))"
    by blast
  from size_invariant_preserved [OF freshSys_invariant,
      where key = "PString ''a''" and val = "PString ''w''"
        and rs = "fst ?rs" and cs = "fst (snd ?rs)" and ss = "snd (snd ?rs)"
        and rd = "fst ?rd" and cd = "fst (snd ?rd)" and sd = "snd (snd ?rd)"
        and kp = PUndefined and vp = PUndefined
        and rc = "fst ?rc" and cc = "fst (snd ?rc)" and sc = "snd (snd ?rc)"] s d c
  have a2: "sizeInvariant exampleEnv (fst (snd ?rs)) (snd (snd ?rs))"
    and a3: "sizeInvariant exampleEnv (fst (snd ?rd)) (snd (snd ?rd))"
    and a4: "sizeInvariant exampleEnv (fst (snd ?rc)) (snd (snd ?rc))"
    by blast+
  from freshSys_invariant exampleWeakInit_value(1) a1 a2 a3 a4 show ?thesis
    by simp
qed

text \<open>
  C8 names \<^verbatim>\<open>entryDeleter\<close> among the operations that keep the counter right. The
  reclamation callback \<^verbatim>\<open>entryDeleter\<close> of a weak collection deletes the ordinal row
  and the entry row and leaves \<^verbatim>\<open>size\<close> alone: after \<^verbatim>\<open>init\<close> of the remotable \<open>o-5\<close>
  and its reclamation, the counter is 1 and no entry row is left.
\<close>

theorem entryDeleter_breaks_size:
  "fst exampleWeakInit = Inr () \<and>
   sizeInvariant exampleEnv (fst (snd exampleWeakInit)) (snd (snd exampleWeakInit)) \<and>
   size_c (fst (snd exampleWeakInit)) = 1 \<and>
   vatstore (entryDeleter exampleEnv (fst (snd exampleWeakInit)) ''o-5'' (snd (snd exampleWeakInit)))
     = [(''vc.1.|nextOrdinal'', Raw ''2'')] \<and>
   entryCount (fst (snd exampleWeakInit))
     (entryDeleter exampleEnv (fst (snd exampleWeakInit)) ''o-5'' (snd (snd exampleWeakInit))) = 0 \<and>
   \<not> sizeInvariant exampleEnv (fst (snd exampleWeakInit))
     (entryDeleter exampleEnv (fst (snd exampleWeakInit)) ''o-5'' (snd (snd exampleWeakInit)))"
proof -
  let ?c = "fst (snd exampleWeakInit)"
  let ?s = "snd (snd exampleWeakInit)"
  note v = exampleWeakInit_value
  have inv: "sizeInvariant exampleEnv ?c ?s"
    by (simp add: sizeInvariant_def v vatstoreGet_def prefix_def remotableRowOK_def
        entryCount_def isEntryRow_def Let_def BIGINT_TAG_LEN_def zeroPad_def)
  have st: "vatstore (entryDeleter exampleEnv ?c ''o-5'' ?s) = [(''vc.1.|nextOrdinal'', Raw ''2'')]"
    by (simp add: entryDeleter_def v vatstoreGet_def prefix_def rowOptText_def Let_def
        BIGINT_TAG_LEN_def zeroPad_def)
  have cnt: "entryCount ?c (entryDeleter exampleEnv ?c ''o-5'' ?s) = 0"
    by (simp add: entryCount_def st isEntryRow_def v)
  with v(2) have "\<not> sizeInvariant exampleEnv ?c (entryDeleter exampleEnv ?c ''o-5'' ?s)"
    by (simp add: sizeInvariant_def)
  with v(1) v(2) inv st cnt show ?thesis
    by simp
qed

section \<open>The ordinal allocator\<close>

text \<open>
  C5 asks for an overflow error. The allocator has no overflow check. With \<open>|nextOrdinal\<close> at \<open>9999999999\<close>, \<^verbatim>\<open>init\<close> of
  a remotable key returns and leaves \<open>|nextOrdinal\<close> at \<open>10000000000\<close>; the following
  \<^verbatim>\<open>init\<close> returns as well, persists the eleven-digit ordinal \<open>10000000000\<close> for its slot
  and writes the entry under the tag \<open>0000000000\<close>, the last ten digits.
\<close>

theorem ordinal_overflow_unchecked:
  "fst (init exampleEnv (exampleCollection False (PTagged ''match:any'' PNull))
          (ordinalSys ''9999999999'') (PRemotable ''o-5'') (PString ''v'')) = Inr () \<and>
   vatstore (snd (snd (init exampleEnv (exampleCollection False (PTagged ''match:any'' PNull))
          (ordinalSys ''9999999999'') (PRemotable ''o-5'') (PString ''v''))))
     = [(''vc.1.|nextOrdinal'', Raw ''10000000000''), (''vc.1.|o-5'', Raw ''9999999999''),
        (''vc.1.r9999999999:o-5'', Json (JCap \<lparr>body = ''sv'', slots = []\<rparr>))] \<and>
   fst (init exampleEnv (exampleCollection False (PTagged ''match:any'' PNull))
          (ordinalSys ''10000000000'') (PRemotable ''o-6'') (PString ''v'')) = Inr () \<and>
   vatstore (snd (snd (init exampleEnv (exampleCollection False (PTagged ''match:any'' PNull))
          (ordinalSys ''10000000000'') (PRemotable ''o-6'') (PString ''v''))))
     = [(''vc.1.|nextOrdinal'', Raw ''10000000001''), (''vc.1.|o-6'', Raw ''10000000000''),
        (''vc.1.r0000000000:o-6'', Json (JCap \<lparr>body = ''sv'', slots = []\<rparr>))]"
  by (simp add: init_def has_def getOrdinal_def generateOrdinal_def
      keyToDBKey_def encodeKey_def exampleEnv_def exampleMatches_def exampleCollection_def
      ordinalSys_def emptySys_def vatstoreGet_def vatstoreSet_def prefix_def Let_def
      rowOptText_def parseInt10_def isDecDigit_def digitVal_def numberToString_def
      numberPlusOne_def digitChar_def zeroPad_def BIGINT_TAG_LEN_def addReachableVref_def)

lemma zeroPad_long: "sz \<le> length x \<Longrightarrow> zeroPad x sz = drop (length x - sz) x"
proof -
  assume a: "sz \<le> length x"
  let ?z = "''000000000000000000''"
  from a have "length (?z @ x) - sz = length ?z + (length x - sz)"
    by simp
  then have "drop (length (?z @ x) - sz) (?z @ x) = drop (length x - sz) x"
    by (simp only: drop_append drop_all diff_add_inverse le_add1 append_Nil)
  then show ?thesis
    by (simp only: zeroPad_def Let_def)
qed

lemma generateOrdinal_rows:
  assumes "getOrdinal c s key = None"
    and "vatstoreGet s (prefix c ''|nextOrdinal'') = Some (Raw str)" "parseInt10 str = Some n"
  shows "vatstoreGet (generateOrdinal E c key s) (prefix c (''|'' @ getSlotForVal key))
           = Some (Raw (toStringRadix 10 n))"
    and "vatstoreGet (generateOrdinal E c key s) (prefix c ''|nextOrdinal'')
           = Some (Raw (toStringRadix 10 (n + 1)))"
proof -
  from assms(1,2) have slot: "getSlotForVal key \<noteq> ''nextOrdinal''"
    by (auto simp: getOrdinal_def)
  show "vatstoreGet (generateOrdinal E c key s) (prefix c (''|'' @ getSlotForVal key))
      = Some (Raw (toStringRadix 10 n))"
    using assms(2,3) slot
    by (simp add: generateOrdinal_def Let_def rowOptText_def numberToString_def)
  show "vatstoreGet (generateOrdinal E c key s) (prefix c ''|nextOrdinal'')
      = Some (Raw (toStringRadix 10 (n + 1)))"
    using assms(2,3)
    by (simp add: generateOrdinal_def Let_def rowOptText_def numberToString_def numberPlusOne_def)
qed

text \<open>
  C5, as the code has it. For every value \<open>n\<close> of \<open>|nextOrdinal\<close> (below \<open>2 ^ 53\<close>,
  where the arithmetic of numbers is exact), whether or not it fits in ten digits,
  \<^verbatim>\<open>init\<close> of a remotable key that matches the key schema and has no ordinal yet raises no
  error of the allocator: it throws only what \<^verbatim>\<open>serialize\<close> throws on the value and
  returns otherwise. In both cases it has persisted \<open>n\<close> as the ordinal of the key's slot
  and left \<open>|nextOrdinal\<close> at \<open>n + 1\<close>. When it returns, the entry row is under the tag
  \<^verbatim>\<open>zeroPad(n, 10)\<close>, which is the last ten digits of \<open>n\<close> when \<open>n\<close> has ten digits or
  more.
\<close>

theorem ordinal_allocation_unchecked:
  assumes "isRemotable key" "matches E key (keySchema c)" "getOrdinal c s key = None"
    and "vatstoreGet s (prefix c ''|nextOrdinal'') = Some (Raw str)" "parseInt10 str = Some n"
    and "n < 2 ^ 53"
  shows "fst (init E c s key val) = map_sum id (\<lambda>cd. ()) (serialize E val) \<and>
         vatstoreGet (snd (snd (init E c s key val))) (prefix c (''|'' @ getSlotForVal key))
           = Some (Raw (toStringRadix 10 n)) \<and>
         vatstoreGet (snd (snd (init E c s key val))) (prefix c ''|nextOrdinal'')
           = Some (Raw (toStringRadix 10 (n + 1))) \<and>
         (\<forall>cd. serialize E val = Inr cd \<longrightarrow>
            vatstoreGet (snd (snd (init E c s key val)))
              (prefix c (''r'' @ zeroPad (toStringRadix 10 n) BIGINT_TAG_LEN @ '':'' @
                 getSlotForVal key))
              = Some (Json (JCap cd))) \<and>
         (BIGINT_TAG_LEN \<le> length (toStringRadix 10 n) \<longrightarrow>
            zeroPad (toStringRadix 10 n) BIGINT_TAG_LEN
              = drop (length (toStringRadix 10 n) - BIGINT_TAG_LEN) (toStringRadix 10 n))"
proof -
  from assms(1-3) have absent: "has E c s key = Inr False"
    by (simp add: has_def)
  note o1 = generateOrdinal_rows(1) [OF assms(3-5), of E]
  note o2 = generateOrdinal_rows(2) [OF assms(3-5), of E]
  have pad: "BIGINT_TAG_LEN \<le> length (toStringRadix 10 n) \<longrightarrow>
            zeroPad (toStringRadix 10 n) BIGINT_TAG_LEN
              = drop (length (toStringRadix 10 n) - BIGINT_TAG_LEN) (toStringRadix 10 n)"
    by (simp add: zeroPad_long)
  show ?thesis
  proof (cases "serialize E val")
    case (Inl e)
    have g: "vatstoreGet (initOrdinal E c s key) k = vatstoreGet (generateOrdinal E c key s) k"
      for k
      using assms(1) by (simp add: vatstoreGet_def vatstore_initOrdinal)
    from init_absent_refused [OF assms(2) absent Inl] o1 o2 pad show ?thesis
      by (simp add: g Inl)
  next
    case (Inr cd)
    let ?s2 = "initRefs E c s key cd"
    from keyToDBKey_initRefs [OF assms(2) absent, of cd] obtain dbKey
      where dk: "keyToDBKey E c ?s2 key = Inr dbKey" ..
    then obtain enc where enc: "encodeKey E c ?s2 key = Inr enc" and dbKey: "dbKey = prefix c enc"
      by (auto simp: keyToDBKey_Inr)
    note tag = encodeKey_tag [OF enc]
    have g: "vatstoreGet ?s2 k = vatstoreGet (generateOrdinal E c key s) k" for k
      using assms(1) by (simp add: vatstoreGet_def vatstore_initRefs)
    from encodeKey_remotable [OF assms(1) enc] obtain ordinal
      where ord: "getOrdinal c ?s2 key = Some ordinal"
        and encr: "enc = ''r'' @ zeroPad (rowText E ordinal) BIGINT_TAG_LEN @ '':'' @ getSlotForVal key"
      by blast
    from ord o1 have "ordinal = Raw (toStringRadix 10 n)"
      by (simp add: getOrdinal_def g)
    with encr have enc_eq:
      "enc = ''r'' @ zeroPad (toStringRadix 10 n) BIGINT_TAG_LEN @ '':'' @ getSlotForVal key"
      by simp
    have ne1: "prefix c (''|'' @ getSlotForVal key) \<noteq> prefix c enc"
      and ne2: "prefix c ''|nextOrdinal'' \<noteq> prefix c enc"
      using tag by auto
    from init_absent_unfold [OF assms(2) absent Inr] dk dbKey
    have r: "init E c s key val =
        (Inr (), c\<lparr>currentGenerationNumber := currentGenerationNumber c + 1,
                   size_c := size_c c + 1\<rparr>,
         vatstoreSet (prefix c enc) (Json (JCap cd)) ?s2)"
      by simp
    have row: "vatstoreGet (snd (snd (init E c s key val))) (prefix c enc) = Some (Json (JCap cd))"
      by (simp add: r)
    have "fst (init E c s key val) = map_sum id (\<lambda>cd. ()) (serialize E val)"
      by (simp add: r Inr)
    moreover have "vatstoreGet (snd (snd (init E c s key val)))
        (prefix c (''|'' @ getSlotForVal key)) = Some (Raw (toStringRadix 10 n))"
      using ne1 o1 by (simp add: r g)
    moreover have "vatstoreGet (snd (snd (init E c s key val))) (prefix c ''|nextOrdinal'')
        = Some (Raw (toStringRadix 10 (n + 1)))"
      using ne2 o2 by (simp add: r g)
    moreover have "\<forall>cd'. serialize E val = Inr cd' \<longrightarrow>
        vatstoreGet (snd (snd (init E c s key val)))
          (prefix c (''r'' @ zeroPad (toStringRadix 10 n) BIGINT_TAG_LEN @ '':'' @
             getSlotForVal key)) = Some (Json (JCap cd'))"
      using row by (simp add: Inr enc_eq)
    ultimately show ?thesis
      using pad by blast
  qed
qed

theorem ordinal_allocation_unchecked_witness:
  "isRemotable (PRemotable ''o-6'') \<and>
   matches exampleEnv (PRemotable ''o-6'')
     (keySchema (exampleCollection False (PTagged ''match:any'' PNull))) \<and>
   getOrdinal (exampleCollection False (PTagged ''match:any'' PNull)) (ordinalSys ''10000000000'')
     (PRemotable ''o-6'') = None \<and>
   vatstoreGet (ordinalSys ''10000000000'')
     (prefix (exampleCollection False (PTagged ''match:any'' PNull)) ''|nextOrdinal'')
     = Some (Raw ''10000000000'') \<and>
   parseInt10 ''10000000000'' = Some 10000000000 \<and>
   (10000000000 :: nat) < 2 ^ 53 \<and>
   serialize exampleEnv (PString ''v'') = Inr \<lparr>body = ''sv'', slots = []\<rparr> \<and>
   BIGINT_TAG_LEN \<le> length (toStringRadix 10 10000000000) \<and>
   fst (init exampleEnv (exampleCollection False (PTagged ''match:any'' PNull))
          (ordinalSys ''10000000000'') (PRemotable ''o-6'') (PString ''v'')) = Inr () \<and>
   vatstoreGet (snd (snd (init exampleEnv (exampleCollection False (PTagged ''match:any'' PNull))
          (ordinalSys ''10000000000'') (PRemotable ''o-6'') (PString ''v''))))
     ''vc.1.|o-6'' = Some (Raw ''10000000000'') \<and>
   vatstoreGet (snd (snd (init exampleEnv (exampleCollection False (PTagged ''match:any'' PNull))
          (ordinalSys ''10000000000'') (PRemotable ''o-6'') (PString ''v''))))
     ''vc.1.|nextOrdinal'' = Some (Raw ''10000000001'') \<and>
   vatstoreGet (snd (snd (init exampleEnv (exampleCollection False (PTagged ''match:any'' PNull))
          (ordinalSys ''10000000000'') (PRemotable ''o-6'') (PString ''v''))))
     ''vc.1.r0000000000:o-6'' = Some (Json (JCap \<lparr>body = ''sv'', slots = []\<rparr>)) \<and>
   zeroPad (toStringRadix 10 10000000000) BIGINT_TAG_LEN = ''0000000000''"
proof -
  let ?c = "exampleCollection False (PTagged ''match:any'' PNull)"
  have h1: "isRemotable (PRemotable ''o-6'')"
    by simp
  have h2: "matches exampleEnv (PRemotable ''o-6'') (keySchema ?c)"
    by (simp add: exampleEnv_def exampleMatches_def exampleCollection_def)
  have h3: "getOrdinal ?c (ordinalSys ''10000000000'') (PRemotable ''o-6'') = None"
    by (simp add: getOrdinal_def vatstoreGet_def ordinalSys_def emptySys_def prefix_def
        exampleCollection_def)
  have h4: "vatstoreGet (ordinalSys ''10000000000'') (prefix ?c ''|nextOrdinal'')
      = Some (Raw ''10000000000'')"
    by (simp add: vatstoreGet_def ordinalSys_def emptySys_def prefix_def exampleCollection_def)
  have h5: "parseInt10 ''10000000000'' = Some 10000000000"
    by (simp add: parseInt10_def isDecDigit_def digitVal_def)
  have h6: "(10000000000 :: nat) < 2 ^ 53"
    by simp
  have h7: "serialize exampleEnv (PString ''v'') = Inr \<lparr>body = ''sv'', slots = []\<rparr>"
    by (simp add: exampleEnv_def)
  have t: "toStringRadix 10 10000000000 = ''10000000000''"
    "toStringRadix 10 (10000000000 + 1) = ''10000000001''"
    by (simp_all add: digitChar_def)
  have h8: "BIGINT_TAG_LEN \<le> length (toStringRadix 10 10000000000)"
    by (simp add: t BIGINT_TAG_LEN_def)
  have p: "prefix ?c x = ''vc.1.'' @ x" for x
    by (simp add: prefix_def exampleCollection_def)
  from ordinal_allocation_unchecked [OF h1 h2 h3 h4 h5 h6, of "PString ''v''"]
    h1 h2 h3 h4 h5 h7 h8
  show ?thesis
    by (simp add: t p digitChar_def BIGINT_TAG_LEN_def zeroPad_def)
qed

section \<open>Reanimation\<close>

text \<open>
  C2. A reanimated handle should address the rows of the collection it was made for.
  \<^verbatim>\<open>reanimateCollection\<close> calls \<^verbatim>\<open>summonCollection(subid, label, kindName, keySchema)\<close>,
  whose parameters are \<^verbatim>\<open>(label, collectionID, kindName, keySchema)\<close>: the label takes the
  place of the collection ID. For the collection made with label \<open>foo\<close> as collection 1 the
  reanimated handle has the prefix \<open>vc.foo.\<close>, not \<open>vc.1.\<close>, and its label is \<open>1\<close>: the key
  \<open>'a'\<close> is looked up under \<open>vc.foo.sa\<close> by the reanimated handle and under \<open>vc.1.sa\<close> by
  the original one.
\<close>

theorem reanimated_handle_prefix:
  "(case makeCollection exampleEnv initialManager emptySys (JStr ''foo'') scalarMapStore PUndefined of
      (Inr (vobjID, c), m, s) \<Rightarrow>
        vobjID = ''o+10/1'' \<and> dbKeyPrefix c = ''vc.1.'' \<and> label c = JStr ''foo'' \<and>
        vatstoreGet s ''vc.1.|label'' = Some (Raw ''foo'') \<and>
        (case reanimateCollection exampleEnv m s vobjID False of
           (Inr (Some c'), s') \<Rightarrow>
             dbKeyPrefix c' = ''vc.foo.'' \<and> label c' = JNum 1 \<and> keySchema c' = keySchema c \<and>
             keyToDBKey exampleEnv c' s' (PString ''a'') = Inr ''vc.foo.sa'' \<and>
             keyToDBKey exampleEnv c s' (PString ''a'') = Inr ''vc.1.sa''
         | _ \<Rightarrow> False)
    | _ \<Rightarrow> False)"
  by (simp add: makeCollection_def exampleEnv_def allocateCollectionID_def initialManager_def
      obtainStoreKindID_def registerKind_def allocateExportID_def registerReanimator_def
      emptySys_def vatstoreGet_def vatstoreSet_def prefixc_def summonCollection_def prefix_def
      reanimateCollection_def parseVatSlot_def digitVal_def digitChar_def exampleUnserialize_def
      keyToDBKey_def encodeKey_def Let_def)

section \<open>Key codec: what the code computes\<close>

text \<open>
  C1. Decoding an encoded number key should give the number back; for a negative double it
  does not. \<^verbatim>\<open>dbEntryKeyToNumber\<close> tests \<^verbatim>\<open>k[0] < '8'\<close>, and \<open>k[0]\<close> is the tag
  \<open>f\<close>, not the first hexadecimal digit, so the sign-bit-only XOR is always applied. For
  \<open>-1\<close> (pattern \<open>0xbff0000000000000\<close>) the key is \<open>f400fffffffffffff\<close> and it decodes to
  the pattern \<open>0xc00fffffffffffff\<close>, the double \<open>-3.9999999999999996\<close>.
\<close>

theorem number_roundtrip_negative_one:
  "numberToDBEntryKey 0xbff0000000000000 = ''f400fffffffffffff'' \<and>
   dbEntryKeyToNumber (numberToDBEntryKey 0xbff0000000000000) = Inr 0xc00fffffffffffff \<and>
   dbEntryKeyToNumber (numberToDBEntryKey 0xbff0000000000000) \<noteq> Inr 0xbff0000000000000"
  by (simp add: numberToDBEntryKey_def dbEntryKeyToNumber_def ltZero_def zeroPad_def
      digitChar_def BigInt_hex_def digitVal_def firstCharLess_def less_char_def)

text \<open>The same for every double, by the round trip of the sixteen hexadecimal digits.\<close>

lemma parseDigitsFrom_append:
  "parseDigitsFrom r acc (xs @ ys) =
     (case parseDigitsFrom r acc xs of None \<Rightarrow> None | Some a \<Rightarrow> parseDigitsFrom r a ys)"
  by (induction xs arbitrary: acc) (auto split: option.splits)

lemma digitVal_digitChar: "d < 16 \<Longrightarrow> digitVal (digitChar d) = Some d"
proof -
  assume "d < 16"
  have "[0..<16] = [0, 1, 2, 3, 4, 5, 6, 7, 8, 9, 10, 11, 12, 13, 14, 15 :: nat]"
    by (simp add: upt_rec)
  with \<open>d < 16\<close> have "d \<in> set [0, 1, 2, 3, 4, 5, 6, 7, 8, 9, 10, 11, 12, 13, 14, 15 :: nat]"
    by (metis atLeastLessThan_iff le0 set_upt)
  then show ?thesis
    by (auto simp: digitChar_def digitVal_def)
qed

lemma parseDigitsFrom_toStringRadix:
  "parseDigitsFrom 16 acc (toStringRadix 16 n)
     = Some (acc * 16 ^ length (toStringRadix 16 n) + n)"
proof (induction "16 :: nat" n arbitrary: acc rule: toStringRadix.induct)
  case (1 n)
  show ?case
  proof (cases "n < 16")
    case True
    then show ?thesis by (simp add: digitVal_digitChar)
  next
    case False
    then have IH: "parseDigitsFrom 16 acc (toStringRadix 16 (n div 16))
        = Some (acc * 16 ^ length (toStringRadix 16 (n div 16)) + n div 16)"
      by (intro 1) simp_all
    have d: "digitVal (digitChar (n mod 16)) = Some (n mod 16)"
      by (intro digitVal_digitChar) simp
    from False show ?thesis
      by (simp add: parseDigitsFrom_append IH d algebra_simps)
  qed
qed

lemma length_toStringRadix:
  "n < 16 ^ k \<Longrightarrow> 0 < k \<Longrightarrow> length (toStringRadix 16 n) \<le> k"
proof (induction "16 :: nat" n arbitrary: k rule: toStringRadix.induct)
  case (1 n)
  show ?case
  proof (cases "n < 16")
    case True
    with "1.prems" show ?thesis by simp
  next
    case False
    from "1.prems" obtain j where k: "k = Suc j"
      by (cases k) auto
    have j: "0 < j"
    proof (rule gr0I)
      assume "j = 0"
      with "1.prems" k False show False by simp
    qed
    from "1.prems" k have "n div 16 < 16 ^ j"
      by (simp add: less_mult_imp_div_less mult.commute)
    from "1.hyps" [OF False _ this j] False k show ?thesis
      by simp
  qed
qed

lemma parseDigitsFrom_zeros:
  "parseDigitsFrom 16 0 (replicate k (CHR ''0'') @ str) = parseDigitsFrom 16 0 str"
  by (induction k) (simp_all add: digitVal_def)

lemma zeroPad_short:
  assumes "length str \<le> 16"
  shows "zeroPad str 16 = replicate (16 - length str) (CHR ''0'') @ str"
proof -
  have z: "''000000000000000000'' = replicate 18 (CHR ''0'')"
    by (simp add: numeral_eq_Suc)
  show ?thesis
    using assms unfolding zeroPad_def Let_def z by simp
qed

lemma toStringRadix_nonempty: "toStringRadix 16 n \<noteq> []"
  by (subst toStringRadix.simps) simp

lemma BigInt_hex_roundtrip:
  assumes "x < 2 ^ 64"
  shows "BigInt_hex (zeroPad (toStringRadix 16 x) 16) = Some x"
proof -
  from assms have "x < 16 ^ 16" by simp
  then have len: "length (toStringRadix 16 x) \<le> 16"
    by (rule length_toStringRadix) simp
  have ne: "zeroPad (toStringRadix 16 x) 16 \<noteq> []"
    using toStringRadix_nonempty [of x] by (simp add: zeroPad_short [OF len])
  show ?thesis
    using ne
    by (simp add: BigInt_hex_def zeroPad_short [OF len] parseDigitsFrom_zeros
        parseDigitsFrom_toStringRadix)
qed

text \<open>
  For every double: the key decodes to the same bit pattern when the number is not negative,
  and to the pattern with all bits but the sign bit complemented when it is negative.
\<close>

lemma number_roundtrip:
  "dbEntryKeyToNumber (numberToDBEntryKey n)
     = Inr (if ltZero n then n XOR 0x7fffffffffffffff else n)"
proof -
  define m :: "64 word" where "m = (if ltZero n then 0xffffffffffffffff else 0x8000000000000000)"
  have bits: "(if ltZero n then unat n XOR 0xffffffffffffffff else unat n XOR 0x8000000000000000)
      = unat (n XOR m)"
    by (simp add: m_def unsigned_xor_eq)
  have lt: "unat (n XOR m) < 2 ^ 64"
    using unsigned_less [of "n XOR m"] by simp
  have key: "numberToDBEntryKey n = CHR ''f'' # zeroPad (toStringRadix 16 (unat (n XOR m))) 16"
    unfolding numberToDBEntryKey_def Let_def bits ..
  have "word_of_nat (unat (n XOR m) XOR 0x8000000000000000) = (n XOR m) XOR (0x8000000000000000 :: 64 word)"
    by (simp add: of_nat_xor_eq)
  moreover have "(n XOR m) XOR (0x8000000000000000 :: 64 word)
      = (if ltZero n then n XOR 0x7fffffffffffffff else n)"
    by (simp add: m_def xor.assoc)
  ultimately show ?thesis
    by (simp add: key dbEntryKeyToNumber_def BigInt_hex_roundtrip [OF lt] firstCharLess_def
        less_char_def)
qed


lemma number_roundtrip_negative:
  assumes "ltZero n"
  shows "dbEntryKeyToNumber (numberToDBEntryKey n) \<noteq> Inr n"
proof -
  have "n XOR 0x7fffffffffffffff \<noteq> n"
  proof
    assume "n XOR 0x7fffffffffffffff = n"
    then have "n XOR (n XOR 0x7fffffffffffffff) = n XOR n"
      by simp
    then have "(0x7fffffffffffffff :: 64 word) = 0"
      by (simp add: xor.assoc [symmetric])
    then show False by simp
  qed
  with assms show ?thesis
    by (simp add: number_roundtrip)
qed

lemma number_roundtrip_not_negative:
  assumes "\<not> ltZero n"
  shows "dbEntryKeyToNumber (numberToDBEntryKey n) = Inr n"
  using assms by (simp add: number_roundtrip)

text \<open>
  C3. The number encoding should follow the IEEE order with \<open>encode(0) = encode(-0)\<close>.
  The test \<^verbatim>\<open>n < 0\<close> is false for \<open>-0\<close>, whose sign bit is set, so only the sign bit of
  \<open>-0\<close> (pattern \<open>0x8000000000000000\<close>) is flipped: its key is \<open>f0000000000000000\<close>,
  which differs from the key \<open>f8000000000000000\<close> of \<open>+0\<close> and sorts before the key
  \<open>f000fffffffffffff\<close> of \<open>-Infinity\<close> (pattern \<open>0xfff0000000000000\<close>).
\<close>

theorem number_key_negative_zero:
  "numberToDBEntryKey 0x8000000000000000 = ''f0000000000000000'' \<and>
   numberToDBEntryKey 0 = ''f8000000000000000'' \<and>
   numberToDBEntryKey 0xfff0000000000000 = ''f000fffffffffffff'' \<and>
   numberToDBEntryKey 0x8000000000000000 \<noteq> numberToDBEntryKey 0 \<and>
   numberToDBEntryKey 0x8000000000000000 < numberToDBEntryKey 0xfff0000000000000"
  by (simp add: numberToDBEntryKey_def ltZero_def zeroPad_def digitChar_def less_char_def)

text \<open>
  C4. The bigint encoding should be monotone for bigints of any magnitude. \<^verbatim>\<open>zeroPad\<close>
  prepends eighteen zeros only, so the digit field of a negative bigint of 20 or more digits
  whose ten's complement has more than eighteen digits fewer is left too short. With
  \<open>a = -99999999999999999998\<close> and \<open>b = -99999999999999999990\<close> we have \<open>a < b\<close>, yet
  the key of \<open>b\<close> sorts before the key of \<open>a\<close>.
\<close>

theorem bigint_key_order_broken:
  "bigintToDBEntryKey (- 99999999999999999998) = ''n9999999980:0000000000000000002'' \<and>
   bigintToDBEntryKey (- 99999999999999999990) = ''n9999999980:00000000000000000010'' \<and>
   (- 99999999999999999998 :: int) < - 99999999999999999990 \<and>
   bigintToDBEntryKey (- 99999999999999999990) < bigintToDBEntryKey (- 99999999999999999998)"
  by (simp add: bigintToDBEntryKey_def BIGINT_LEN_MODULUS_def BIGINT_TAG_LEN_def zeroPad_def
      digitChar_def less_char_def)

end
